theory Spec2Isabelle
  imports Complex_Main "HOL-Library.Product_Lexorder" "HOL-Library.Multiset"
begin

section \<open>Grid, symbols and Python indexing\<close>

text \<open>
  The grid of \<^verbatim>\<open>simulation_trafic.py\<close> is a list of rows, each row a list of
  one-character strings; \<^verbatim>\<open>grille[y][x]\<close> is the cell of column \<open>x\<close> in row \<open>y\<close>.
  Coordinates are Python integers. Time stamps and the progress of a pedestrian are
  Python floats; they are modelled as real numbers (exact arithmetic).
\<close>

datatype erreur = IndexError | KeyError

type_synonym case_t = "int \<times> int"
type_synonym grille = "char list list"

definition NON_ROUTIER :: char where "NON_ROUTIER = CHR ''N''"
definition ROUTE :: char where "ROUTE = CHR '' ''"
definition OBSTACLE_MANUEL :: char where "OBSTACLE_MANUEL = CHR ''X''"
definition OBSTACLE_AUTO_SYM :: char where "OBSTACLE_AUTO_SYM = CHR ''A''"

definition SYMBOLES_NON_PRATICABLES :: "char set" where
  "SYMBOLES_NON_PRATICABLES = {NON_ROUTIER, OBSTACLE_MANUEL, OBSTACLE_AUTO_SYM}"

text \<open>Python list indexing: a negative index counts from the end, an index out of
  range raises \<^verbatim>\<open>IndexError\<close>.\<close>

definition indice :: "nat \<Rightarrow> int \<Rightarrow> erreur + nat" where
  "indice n i =
     (let j = (if i < 0 then int n + i else i)
      in if 0 \<le> j \<and> j < int n then Inr (nat j) else Inl IndexError)"

text \<open>\<^verbatim>\<open>grille[y][x]\<close> read.\<close>

definition cellule :: "grille \<Rightarrow> int \<Rightarrow> int \<Rightarrow> erreur + char" where
  "cellule g x y =
     (case indice (length g) y of
        Inl e \<Rightarrow> Inl e
      | Inr j \<Rightarrow>
          (case indice (length (g ! j)) x of
             Inl e \<Rightarrow> Inl e
           | Inr i \<Rightarrow> Inr (g ! j ! i)))"

text \<open>\<^verbatim>\<open>grille[y][x] = c\<close> write.\<close>

definition ecrire :: "grille \<Rightarrow> int \<Rightarrow> int \<Rightarrow> char \<Rightarrow> erreur + grille" where
  "ecrire g x y c =
     (case indice (length g) y of
        Inl e \<Rightarrow> Inl e
      | Inr j \<Rightarrow>
          (case indice (length (g ! j)) x of
             Inl e \<Rightarrow> Inl e
           | Inr i \<Rightarrow> Inr (g[j := (g ! j)[i := c]])))"

text \<open>\<^verbatim>\<open>len(grille[0])\<close>: raises on the empty grid.\<close>

definition largeur :: "grille \<Rightarrow> erreur + int" where
  "largeur g = (case g of [] \<Rightarrow> Inl IndexError | l # _ \<Rightarrow> Inr (int (length l)))"

text \<open>A grid as \<^verbatim>\<open>creer_grille\<close> builds it: at least one row, all rows of the
  same length.\<close>

definition grille_valide :: "grille \<Rightarrow> bool" where
  "grille_valide g \<longleftrightarrow> g \<noteq> [] \<and> (\<forall>l \<in> set g. length l = length (hd g))"

definition dans_grille :: "grille \<Rightarrow> int \<Rightarrow> int \<Rightarrow> bool" where
  "dans_grille g x y \<longleftrightarrow> 0 \<le> y \<and> y < int (length g) \<and> 0 \<le> x \<and> x < int (length (g ! nat y))"

section \<open>Traffic lights\<close>

record feu =
  position_feu :: case_t
  etat :: string
  duree_vert :: real
  duree_orange :: real
  duree_rouge :: real
  duree_actuelle :: real
  dernier_changement :: real

section \<open>Obstacles\<close>

definition ajouter_obstacle_manuel ::
  "grille \<Rightarrow> int \<Rightarrow> int \<Rightarrow> feu list \<Rightarrow> erreur + (bool \<times> grille)" where
  "ajouter_obstacle_manuel g x y feux =
     (let positions_feux = position_feu ` set feux in
      case cellule g x y of
        Inl e \<Rightarrow> Inl e
      | Inr c \<Rightarrow>
          if c = ROUTE \<and> (x, y) \<notin> positions_feux \<and> c \<notin> SYMBOLES_NON_PRATICABLES
          then (case ecrire g x y OBSTACLE_MANUEL of
                  Inl e \<Rightarrow> Inl e
                | Inr g' \<Rightarrow> Inr (True, g'))
          else Inr (False, g))"

definition ajouter_obstacle_auto ::
  "grille \<Rightarrow> int \<Rightarrow> int \<Rightarrow> feu list \<Rightarrow> erreur + (bool \<times> grille)" where
  "ajouter_obstacle_auto g x y feux =
     (let positions_feux = position_feu ` set feux in
      case cellule g x y of
        Inl e \<Rightarrow> Inl e
      | Inr c \<Rightarrow>
          if c = ROUTE \<and> (x, y) \<notin> positions_feux \<and> c \<notin> SYMBOLES_NON_PRATICABLES
          then (case ecrire g x y OBSTACLE_AUTO_SYM of
                  Inl e \<Rightarrow> Inl e
                | Inr g' \<Rightarrow> Inr (True, g'))
          else Inr (False, g))"

section \<open>Cars, crossings and pedestrians\<close>

text \<open>The fields of a car dictionary that the simulation logic reads or writes
  (colour and image belong to the rendering).\<close>

record voiture =
  id_v :: int
  position :: case_t
  destination :: case_t
  chemin :: "case_t list"
  temps_arrivee :: "real option"
  dernier_deplacement :: real
  orientation :: int
  bloquee_depuis :: "real option"
  recalcul_echecs :: int

record passage =
  position_passage :: case_t
  orientation_passage :: string

record pieton =
  id_p :: int
  passage_pos :: case_t
  orientation_p :: string
  progres :: real

definition TAILLE_X_GRILLE :: int where "TAILLE_X_GRILLE = 1200 div 40"
definition TAILLE_Y_GRILLE :: int where "TAILLE_Y_GRILLE = 600 div 40"
definition VITESSE_PIETON :: real where "VITESSE_PIETON = 2 / 100"
definition PROBA_APPARITION_PIETON :: real where "PROBA_APPARITION_PIETON = 5 / 1000"
definition SEUIL_BLOCAGE :: real where "SEUIL_BLOCAGE = 1"
definition MAX_RECALCUL_ECHECS :: int where "MAX_RECALCUL_ECHECS = 6"
definition DELAI_DISPARITION_APRES_ARRIVEE :: real where
  "DELAI_DISPARITION_APRES_ARRIVEE = 1"
definition DELAI_MIN_MOUVEMENT :: real where "DELAI_MIN_MOUVEMENT = 1 / (3 / 2)"

section \<open>The forced-replan hook and the obstacle events of the main loop\<close>

definition forcer_recalcul_voiture :: "case_t \<Rightarrow> voiture \<Rightarrow> voiture" where
  "forcer_recalcul_voiture obstacle_pos v =
     (if temps_arrivee v = None \<and> position v \<noteq> obstacle_pos
      then (if obstacle_pos \<in> set (chemin v) \<or> destination v = obstacle_pos
            then v\<lparr>chemin := [], recalcul_echecs := 0\<rparr>
            else v)
      else v)"

definition forcer_recalcul_si_affecte :: "int \<Rightarrow> int \<Rightarrow> voiture list \<Rightarrow> voiture list" where
  "forcer_recalcul_si_affecte obstacle_x obstacle_y voitures =
     map (forcer_recalcul_voiture (obstacle_x, obstacle_y)) voitures"

text \<open>Left click on cell \<open>(cx, cy)\<close>: place a manual obstacle, and run the hook when
  the placement succeeded.\<close>

definition clic_gauche ::
  "feu list \<Rightarrow> int \<Rightarrow> int \<Rightarrow> grille \<times> voiture list \<Rightarrow> erreur + (grille \<times> voiture list)" where
  "clic_gauche feux cx cy s =
     (case s of (g, voitures) \<Rightarrow>
        if 0 \<le> cx \<and> cx < TAILLE_X_GRILLE \<and> 0 \<le> cy \<and> cy < TAILLE_Y_GRILLE
        then (case ajouter_obstacle_manuel g cx cy feux of
                Inl e \<Rightarrow> Inl e
              | Inr (ok, g') \<Rightarrow>
                  if ok then Inr (g', forcer_recalcul_si_affecte cx cy voitures)
                  else Inr (g', voitures))
        else Inr (g, voitures))"

text \<open>Right click on cell \<open>(cx, cy)\<close>: remove a manual obstacle. The car list is
  not touched.\<close>

definition clic_droit ::
  "int \<Rightarrow> int \<Rightarrow> grille \<times> voiture list \<Rightarrow> erreur + (grille \<times> voiture list)" where
  "clic_droit cx cy s =
     (case s of (g, voitures) \<Rightarrow>
        if 0 \<le> cx \<and> cx < TAILLE_X_GRILLE \<and> 0 \<le> cy \<and> cy < TAILLE_Y_GRILLE
        then (case cellule g cx cy of
                Inl e \<Rightarrow> Inl e
              | Inr c \<Rightarrow>
                  if c = OBSTACLE_MANUEL
                  then (case ecrire g cx cy ROUTE of
                          Inl e \<Rightarrow> Inl e
                        | Inr g' \<Rightarrow> Inr (g', voitures))
                  else Inr (g, voitures))
        else Inr (g, voitures))"

text \<open>The scans \<^verbatim>\<open>for y in range(TAILLE_Y_GRILLE) for x in range(TAILLE_X_GRILLE)\<close>
  of the automatic-obstacle logic read every cell of the configured size and raise when
  the grid is smaller.\<close>

definition couvre :: "grille \<Rightarrow> bool" where
  "couvre g \<longleftrightarrow> TAILLE_Y_GRILLE \<le> int (length g)
     \<and> (\<forall>j \<in> set [0..<nat TAILLE_Y_GRILLE]. TAILLE_X_GRILLE \<le> int (length (g ! j)))"

definition toutes_positions :: "case_t list" where
  "toutes_positions =
     concat (map (\<lambda>y. map (\<lambda>x. (x, y)) [0..TAILLE_X_GRILLE - 1]) [0..TAILLE_Y_GRILLE - 1])"

definition possible_add_positions :: "grille \<Rightarrow> feu list \<Rightarrow> case_t list" where
  "possible_add_positions g feux =
     (let positions_interdites = position_feu ` set feux
            \<union> {p \<in> set toutes_positions.
                 g ! nat (snd p) ! nat (fst p) \<in> SYMBOLES_NON_PRATICABLES}
      in filter (\<lambda>p. g ! nat (snd p) ! nat (fst p) = ROUTE \<and> p \<notin> positions_interdites)
           toutes_positions)"

definition current_obstacle_auto_positions :: "grille \<Rightarrow> case_t list" where
  "current_obstacle_auto_positions g =
     filter (\<lambda>p. g ! nat (snd p) ! nat (fst p) = OBSTACLE_AUTO_SYM) toutes_positions"

text \<open>One firing of the automatic-obstacle timer. \<open>action\<close> is the result of
  \<^verbatim>\<open>random.choice(['add', 'remove', 'none'])\<close> and \<open>k\<close> selects the element that
  \<^verbatim>\<open>random.choice\<close> draws from the candidate list.\<close>

definition obstacle_automatique ::
  "string \<Rightarrow> nat \<Rightarrow> feu list \<Rightarrow> grille \<times> voiture list \<Rightarrow> erreur + (grille \<times> voiture list)" where
  "obstacle_automatique action k feux s =
     (case s of (g, voitures) \<Rightarrow>
        if action = ''add'' then
          (if \<not> couvre g then Inl IndexError
           else let ps = possible_add_positions g feux in
             if ps \<noteq> [] then
               (case ps ! (k mod length ps) of (ox, oy) \<Rightarrow>
                  (case ajouter_obstacle_auto g ox oy feux of
                     Inl e \<Rightarrow> Inl e
                   | Inr (ok, g') \<Rightarrow>
                       if ok then Inr (g', forcer_recalcul_si_affecte ox oy voitures)
                       else Inr (g', voitures)))
             else Inr (g, voitures))
        else if action = ''remove'' then
          (if \<not> couvre g then Inl IndexError
           else let ps = current_obstacle_auto_positions g in
             if ps \<noteq> [] then
               (case ps ! (k mod length ps) of (ox, oy) \<Rightarrow>
                  (case ecrire g ox oy ROUTE of
                     Inl e \<Rightarrow> Inl e
                   | Inr g' \<Rightarrow> Inr (g', voitures)))
             else Inr (g, voitures))
        else Inr (g, voitures))"

section \<open>Pedestrians\<close>

definition voiture_presente_sur_passage :: "voiture list \<Rightarrow> case_t \<Rightarrow> bool" where
  "voiture_presente_sur_passage voitures pos_passage \<longleftrightarrow>
     (\<exists>v \<in> set (filter (\<lambda>v. temps_arrivee v = None) voitures). position v = pos_passage)"

definition avancer_pieton :: "voiture list \<Rightarrow> pieton \<Rightarrow> pieton" where
  "avancer_pieton voitures p =
     (if \<not> voiture_presente_sur_passage voitures (passage_pos p)
      then p\<lparr>progres := progres p + VITESSE_PIETON\<rparr>
      else p)"

text \<open>\<open>r\<close> is the value of \<^verbatim>\<open>random.random()\<close>, \<open>k\<close> selects the crossing drawn by
  \<^verbatim>\<open>random.choice\<close>; the state is the list of active pedestrians and the counter
  \<^verbatim>\<open>prochain_id_pieton\<close>.\<close>

definition mettre_a_jour_pietons ::
  "passage list \<Rightarrow> voiture list \<Rightarrow> real \<Rightarrow> nat \<Rightarrow> pieton list \<times> int \<Rightarrow> pieton list \<times> int" where
  "mettre_a_jour_pietons passages_pietons voitures r k s =
     (case s of (pietons_actifs, prochain_id_pieton) \<Rightarrow>
        let pietons_termines =
              filter (\<lambda>p. progres p < 1) (map (avancer_pieton voitures) pietons_actifs)
        in
        if passages_pietons \<noteq> []
           \<and> r < PROBA_APPARITION_PIETON * real (length passages_pietons)
        then
          (let passage_choisi = passages_pietons ! (k mod length passages_pietons);
               pos_passage_cible = position_passage passage_choisi;
               passage_deja_occupe_par_pieton =
                 (\<exists>p \<in> set pietons_termines. passage_pos p = pos_passage_cible);
               passage_deja_occupe_par_voiture =
                 (\<exists>v \<in> set voitures. position v = pos_passage_cible)
           in if \<not> passage_deja_occupe_par_pieton \<and> \<not> passage_deja_occupe_par_voiture
              then (pietons_termines @
                      [\<lparr>id_p = prochain_id_pieton, passage_pos = pos_passage_cible,
                        orientation_p = orientation_passage passage_choisi, progres = 0\<rparr>],
                    prochain_id_pieton + 1)
              else (pietons_termines, prochain_id_pieton))
        else (pietons_termines, prochain_id_pieton))"

section \<open>Traffic-light update\<close>





section \<open>Path planning\<close>

type_synonym directions = "int \<rightharpoonup> string"

definition heuristique :: "case_t \<Rightarrow> case_t \<Rightarrow> int" where
  "heuristique a b = \<bar>fst a - fst b\<bar> + \<bar>snd a - snd b\<bar>"

definition cardinal_directions :: "(int \<times> int) list" where
  "cardinal_directions = [(0, 1), (0, -1), (1, 0), (-1, 0)]"

text \<open>
  The open list is a \<^verbatim>\<open>heapq\<close> of tuples \<open>(f, (x, y))\<close>. Python compares tuples
  lexicographically, which is the order of pairs here, and \<^verbatim>\<open>heappop\<close> returns the
  least item; the heap is modelled by the list of its items.
\<close>

definition heappush :: "'a list \<Rightarrow> 'a \<Rightarrow> 'a list" where
  "heappush h x = x # h"

definition heappop :: "'a::linorder list \<Rightarrow> 'a \<times> 'a list" where
  "heappop h = (let m = Min (set h) in (m, remove1 m h))"

text \<open>
  The search state: the open list, the dictionary \<^verbatim>\<open>precedent\<close> and the dictionary
  \<^verbatim>\<open>cout_g\<close>. \<^verbatim>\<open>precedent\<close> is only read through \<^verbatim>\<open>.get\<close>, which is None for
  the start (stored with the value None) and for a missing key alike, so the start has
  no entry in the map.
\<close>

type_synonym etat_recherche =
  "(int \<times> case_t) list \<times> (case_t \<rightharpoonup> case_t) \<times> (case_t \<rightharpoonup> int)"

definition move_is_allowed :: "directions \<Rightarrow> directions \<Rightarrow> case_t \<Rightarrow> int \<times> int \<Rightarrow> bool" where
  "move_is_allowed directions_lignes directions_colonnes courant d =
     (case courant of (cx, cy) \<Rightarrow> case d of (dx, dy) \<Rightarrow>
        if dy = 0 \<and> dx \<noteq> 0
        then (directions_lignes cy = Some ''droite'' \<and> dx = 1)
             \<or> (directions_lignes cy = Some ''gauche'' \<and> dx = - 1)
        else if dx = 0 \<and> dy \<noteq> 0
        then (directions_colonnes cx = Some ''bas'' \<and> dy = 1)
             \<or> (directions_colonnes cx = Some ''haut'' \<and> dy = - 1)
        else False)"

text \<open>The body of the loop over the four directions, for one direction.\<close>

definition explorer_voisin ::
  "grille \<Rightarrow> int \<Rightarrow> int \<Rightarrow> directions \<Rightarrow> directions \<Rightarrow> case_t \<Rightarrow> case_t \<Rightarrow> int \<times> int
   \<Rightarrow> etat_recherche \<Rightarrow> erreur + etat_recherche" where
  "explorer_voisin g taille_x taille_y directions_lignes directions_colonnes arrivee courant d s =
     (case s of (ouverte, precedent, cout_g) \<Rightarrow>
      case courant of (cx, cy) \<Rightarrow> case d of (dx, dy) \<Rightarrow>
        let nx = cx + dx; ny = cy + dy; voisin = (nx, ny) in
        if \<not> (0 \<le> nx \<and> nx < taille_x \<and> 0 \<le> ny \<and> ny < taille_y) then Inr s
        else
          (case cellule g nx ny of
             Inl e \<Rightarrow> Inl e
           | Inr c \<Rightarrow>
               if c \<noteq> ROUTE then Inr s
               else if \<not> move_is_allowed directions_lignes directions_colonnes courant d
               then Inr s
               else
                 (case cout_g courant of
                    None \<Rightarrow> Inl KeyError
                  | Some gc \<Rightarrow>
                      let n_cout_g = gc + 1 in
                      if (case cout_g voisin of None \<Rightarrow> True | Some gv \<Rightarrow> n_cout_g < gv)
                      then Inr (heappush ouverte (n_cout_g + heuristique voisin arrivee, voisin),
                                precedent(voisin \<mapsto> courant),
                                cout_g(voisin \<mapsto> n_cout_g))
                      else Inr s)))"

fun explorer_voisins ::
  "grille \<Rightarrow> int \<Rightarrow> int \<Rightarrow> directions \<Rightarrow> directions \<Rightarrow> case_t \<Rightarrow> case_t \<Rightarrow> (int \<times> int) list
   \<Rightarrow> etat_recherche \<Rightarrow> erreur + etat_recherche" where
  "explorer_voisins g tx ty dl dc arrivee courant [] s = Inr s"
| "explorer_voisins g tx ty dl dc arrivee courant (d # ds) s =
     (case explorer_voisin g tx ty dl dc arrivee courant d s of
        Inl e \<Rightarrow> Inl e
      | Inr s' \<Rightarrow> explorer_voisins g tx ty dl dc arrivee courant ds s')"

text \<open>The reconstruction loop \<^verbatim>\<open>while temp is not None\<close>; it does not return when
  \<^verbatim>\<open>precedent\<close> has a cycle.\<close>

partial_function (option) reconstruire ::
  "(case_t \<rightharpoonup> case_t) \<Rightarrow> case_t option \<Rightarrow> case_t list \<Rightarrow> case_t list option" where
  "reconstruire precedent temp chemin_acc =
     (case temp of
        None \<Rightarrow> Some chemin_acc
      | Some t \<Rightarrow> reconstruire precedent (precedent t) (chemin_acc @ [t]))"

text \<open>The main loop \<^verbatim>\<open>while ouverte\<close>. The result is \<open>None\<close> when the loop does not
  return, \<open>Some (Inl e)\<close> when it raises, \<open>Some (Inr None)\<close> when it returns None and
  \<open>Some (Inr (Some p))\<close> when it returns the path \<open>p\<close>.\<close>

partial_function (option) boucle_recherche ::
  "grille \<Rightarrow> int \<Rightarrow> int \<Rightarrow> directions \<Rightarrow> directions \<Rightarrow> case_t \<Rightarrow> etat_recherche
   \<Rightarrow> (erreur + case_t list option) option" where
  "boucle_recherche g tx ty dl dc arrivee s =
     (case s of (ouverte, precedent, cout_g) \<Rightarrow>
        if ouverte = [] then Some (Inr None)
        else
          (case heappop ouverte of (item, ouverte') \<Rightarrow>
             let courant = snd item in
             if courant = arrivee
             then (case reconstruire precedent (Some courant) [] of
                     None \<Rightarrow> None
                   | Some ch \<Rightarrow> Some (Inr (Some (rev ch))))
             else
               (case explorer_voisins g tx ty dl dc arrivee courant cardinal_directions
                       (ouverte', precedent, cout_g) of
                  Inl e \<Rightarrow> Some (Inl e)
                | Inr s' \<Rightarrow> boucle_recherche g tx ty dl dc arrivee s')))"

declare reconstruire.simps [code]
declare boucle_recherche.simps [code]

definition trouver_chemin ::
  "grille \<Rightarrow> case_t \<Rightarrow> case_t \<Rightarrow> directions \<Rightarrow> directions
   \<Rightarrow> (erreur + case_t list option) option" where
  "trouver_chemin g depart arrivee directions_lignes directions_colonnes =
     (case largeur g of
        Inl e \<Rightarrow> Some (Inl e)
      | Inr taille_x \<Rightarrow>
          let taille_y = int (length g) in
          if \<not> (0 \<le> fst depart \<and> fst depart < taille_x \<and> 0 \<le> snd depart \<and> snd depart < taille_y
                \<and> 0 \<le> fst arrivee \<and> fst arrivee < taille_x
                \<and> 0 \<le> snd arrivee \<and> snd arrivee < taille_y)
          then Some (Inr None)
          else
            (case cellule g (fst depart) (snd depart) of
               Inl e \<Rightarrow> Some (Inl e)
             | Inr cd \<Rightarrow>
                 if cd \<noteq> ROUTE then Some (Inr None)
                 else
                   (case cellule g (fst arrivee) (snd arrivee) of
                      Inl e \<Rightarrow> Some (Inl e)
                    | Inr ca \<Rightarrow>
                        if ca \<noteq> ROUTE then Some (Inr None)
                        else if depart = arrivee then Some (Inr (Some [depart]))
                        else boucle_recherche g taille_x taille_y
                               directions_lignes directions_colonnes arrivee
                               ([(heuristique depart arrivee, depart)],
                                Map.empty, [depart \<mapsto> 0]))))"

text \<open>
  The routes the planner is specified against: a non-empty sequence of cells of the
  grid that are all ROUTE, each step an orthogonal unit move in the direction that the
  policy of the row (horizontal move) or of the column (vertical move) allows.
\<close>

definition est_route :: "grille \<Rightarrow> case_t \<Rightarrow> bool" where
  "est_route g c \<longleftrightarrow> dans_grille g (fst c) (snd c) \<and> g ! nat (snd c) ! nat (fst c) = ROUTE"

definition mouvement_legal :: "directions \<Rightarrow> directions \<Rightarrow> case_t \<Rightarrow> case_t \<Rightarrow> bool" where
  "mouvement_legal dl dc a b \<longleftrightarrow>
     (snd b = snd a \<and> (fst b = fst a + 1 \<and> dl (snd a) = Some ''droite''
                        \<or> fst b = fst a - 1 \<and> dl (snd a) = Some ''gauche''))
     \<or> (fst b = fst a \<and> (snd b = snd a + 1 \<and> dc (fst a) = Some ''bas''
                          \<or> snd b = snd a - 1 \<and> dc (fst a) = Some ''haut''))"

definition itineraire ::
  "grille \<Rightarrow> directions \<Rightarrow> directions \<Rightarrow> case_t \<Rightarrow> case_t \<Rightarrow> case_t list \<Rightarrow> bool" where
  "itineraire g dl dc depart arrivee p \<longleftrightarrow>
     p \<noteq> [] \<and> hd p = depart \<and> last p = arrivee \<and> list_all (est_route g) p
     \<and> successively (mouvement_legal dl dc) p"

section \<open>Movement of the cars\<close>

definition est_deplacement_valide ::
  "case_t \<Rightarrow> feu list \<Rightarrow> pieton list \<Rightarrow> grille \<Rightarrow> erreur + bool" where
  "est_deplacement_valide pos feux pietons g =
     (case largeur g of
        Inl e \<Rightarrow> Inl e
      | Inr taille_x \<Rightarrow>
          let taille_y = int (length g); x = fst pos; y = snd pos in
          if \<not> (0 \<le> x \<and> x < taille_x \<and> 0 \<le> y \<and> y < taille_y) then Inr False
          else
            (case cellule g x y of
               Inl e \<Rightarrow> Inl e
             | Inr c \<Rightarrow>
                 if c \<noteq> ROUTE then Inr False
                 else if (\<exists>f \<in> set feux. position_feu f = pos \<and> etat f \<noteq> ''vert'')
                 then Inr False
                 else if (\<exists>p \<in> set pietons. passage_pos p = pos \<and> progres p < 1)
                 then Inr False
                 else Inr True))"

text \<open>Phase 0 of \<^verbatim>\<open>mettre_a_jour_voitures\<close>: mark the arrivals, keep the cars that
  have not arrived or arrived less than the grace period ago.\<close>

definition marquer_arrivee :: "real \<Rightarrow> voiture \<Rightarrow> voiture" where
  "marquer_arrivee temps_actuel v =
     (if temps_arrivee v = None \<and> position v = destination v
      then v\<lparr>chemin := [], temps_arrivee := Some temps_actuel, bloquee_depuis := None,
             recalcul_echecs := 0\<rparr>
      else v)"

definition voitures_restantes :: "real \<Rightarrow> voiture list \<Rightarrow> voiture list" where
  "voitures_restantes temps_actuel voitures =
     filter (\<lambda>v. case temps_arrivee v of
                    None \<Rightarrow> True
                  | Some t \<Rightarrow> temps_actuel - t < DELAI_DISPARITION_APRES_ARRIVEE)
       (map (marquer_arrivee temps_actuel) voitures)"

text \<open>Phase 1: the cars on their way that have no path, or have been blocked for
  longer than the threshold, ask the planner for a path to their destination.\<close>

definition besoin_chemin :: "real \<Rightarrow> voiture \<Rightarrow> bool" where
  "besoin_chemin temps_actuel v \<longleftrightarrow>
     temps_arrivee v = None
     \<and> (chemin v = []
        \<or> (case bloquee_depuis v of
              None \<Rightarrow> False
            | Some b \<Rightarrow> temps_actuel - b > SEUIL_BLOCAGE))"

definition adopter_chemin :: "real \<Rightarrow> voiture \<Rightarrow> case_t list option \<Rightarrow> voiture" where
  "adopter_chemin temps_actuel v path_trouve =
     (if (case path_trouve of None \<Rightarrow> False | Some p \<Rightarrow> length p > 1)
      then v\<lparr>chemin := drop 1 (the path_trouve), bloquee_depuis := None,
             recalcul_echecs := 0\<rparr>
      else v\<lparr>chemin := [],
             bloquee_depuis := (case bloquee_depuis v of
                                  None \<Rightarrow> Some temps_actuel
                                | Some b \<Rightarrow> Some b)\<rparr>)"

fun recalculer_chemins ::
  "real \<Rightarrow> grille \<Rightarrow> directions \<Rightarrow> directions \<Rightarrow> voiture list
   \<Rightarrow> (erreur + voiture list) option" where
  "recalculer_chemins temps_actuel g dl dc [] = Some (Inr [])"
| "recalculer_chemins temps_actuel g dl dc (v # vs) =
     (if besoin_chemin temps_actuel v
      then (case trouver_chemin g (position v) (destination v) dl dc of
              None \<Rightarrow> None
            | Some (Inl e) \<Rightarrow> Some (Inl e)
            | Some (Inr path_trouve) \<Rightarrow>
                (case recalculer_chemins temps_actuel g dl dc vs of
                   None \<Rightarrow> None
                 | Some (Inl e) \<Rightarrow> Some (Inl e)
                 | Some (Inr vs') \<Rightarrow>
                     Some (Inr (adopter_chemin temps_actuel v path_trouve # vs'))))
      else (case recalculer_chemins temps_actuel g dl dc vs of
              None \<Rightarrow> None
            | Some (Inl e) \<Rightarrow> Some (Inl e)
            | Some (Inr vs') \<Rightarrow> Some (Inr (v # vs'))))"

text \<open>
  Phase 2. The cars are dictionaries that the lists of this phase share; a car is
  identified here by its index in the list \<^verbatim>\<open>voitures\<close>. The cars that were blocked
  come first, by ascending \<^verbatim>\<open>bloquee_depuis\<close> (\<^verbatim>\<open>list.sort\<close> is stable, and so is
  \<open>sort_key\<close>); the others follow in the order that \<^verbatim>\<open>random.shuffle\<close> gives them,
  which is the parameter \<open>melange\<close>.
\<close>

definition eligible :: "real \<Rightarrow> voiture \<Rightarrow> bool" where
  "eligible temps_actuel v \<longleftrightarrow>
     temps_arrivee v = None \<and> chemin v \<noteq> []
     \<and> temps_actuel - dernier_deplacement v \<ge> DELAI_MIN_MOUVEMENT"

definition voitures_a_resoudre_mouvement ::
  "(nat list \<Rightarrow> nat list) \<Rightarrow> real \<Rightarrow> voiture list \<Rightarrow> nat list" where
  "voitures_a_resoudre_mouvement melange temps_actuel voitures =
     (let eligibles = filter (\<lambda>i. eligible temps_actuel (voitures ! i)) [0..<length voitures];
          prioritized_cars =
            sort_key (\<lambda>i. case bloquee_depuis (voitures ! i) of None \<Rightarrow> 0 | Some b \<Rightarrow> b)
              (filter (\<lambda>i. bloquee_depuis (voitures ! i) \<noteq> None) eligibles);
          remaining_cars = melange (filter (\<lambda>i. bloquee_depuis (voitures ! i) = None) eligibles)
      in prioritized_cars @ remaining_cars)"

type_synonym etat_resolution = "case_t set \<times> (int \<rightharpoonup> case_t) \<times> voiture list"

text \<open>The loop over the cars to resolve: the state is \<^verbatim>\<open>projected_occupied_cells\<close>,
  \<^verbatim>\<open>approved_moves\<close> and the car list.\<close>

fun resoudre_mouvements ::
  "feu list \<Rightarrow> pieton list \<Rightarrow> grille \<Rightarrow> nat list \<Rightarrow> etat_resolution
   \<Rightarrow> erreur + etat_resolution" where
  "resoudre_mouvements feux pietons g [] s = Inr s"
| "resoudre_mouvements feux pietons g (i # is) s =
     (case s of (projected_occupied_cells, approved_moves, voitures) \<Rightarrow>
        (case chemin (voitures ! i) of
           [] \<Rightarrow> Inl IndexError
         | next_pos # _ \<Rightarrow>
             if next_pos \<notin> projected_occupied_cells
             then (case est_deplacement_valide next_pos feux pietons g of
                     Inl e \<Rightarrow> Inl e
                   | Inr ok \<Rightarrow>
                       if ok
                       then resoudre_mouvements feux pietons g is
                              (insert next_pos projected_occupied_cells,
                               approved_moves(id_v (voitures ! i) \<mapsto> next_pos),
                               voitures[i := (voitures ! i)\<lparr>bloquee_depuis := None\<rparr>])
                       else resoudre_mouvements feux pietons g is s)
             else resoudre_mouvements feux pietons g is s))"

text \<open>Phase 3: a car whose identifier has an approved move takes it.\<close>

definition appliquer_mouvement :: "real \<Rightarrow> (int \<rightharpoonup> case_t) \<Rightarrow> voiture \<Rightarrow> voiture" where
  "appliquer_mouvement temps_actuel approved_moves v =
     (case approved_moves (id_v v) of
        None \<Rightarrow> v
      | Some new_pos \<Rightarrow>
          let dx = fst new_pos - fst (position v); dy = snd new_pos - snd (position v) in
          v\<lparr>position := new_pos,
            chemin := (if chemin v \<noteq> [] \<and> hd (chemin v) = new_pos
                       then tl (chemin v) else chemin v),
            dernier_deplacement := temps_actuel,
            orientation :=
              (if dx = 1 \<and> dy = 0 then 0
               else if dx = - 1 \<and> dy = 0 then 180
               else if dx = 0 \<and> dy = 1 then 270
               else if dx = 0 \<and> dy = - 1 then 90
               else orientation v)\<rparr>)"

text \<open>Phases 0 to 2: the approved moves of the tick and the car list before they are
  applied.\<close>

definition mouvements_approuves ::
  "(nat list \<Rightarrow> nat list) \<Rightarrow> real \<Rightarrow> voiture list \<Rightarrow> grille \<Rightarrow> feu list
   \<Rightarrow> directions \<Rightarrow> directions \<Rightarrow> pieton list
   \<Rightarrow> (erreur + ((int \<rightharpoonup> case_t) \<times> voiture list)) option" where
  "mouvements_approuves melange temps_actuel voitures g feux dl dc pietons =
     (case recalculer_chemins temps_actuel g dl dc (voitures_restantes temps_actuel voitures) of
        None \<Rightarrow> None
      | Some (Inl e) \<Rightarrow> Some (Inl e)
      | Some (Inr vs1) \<Rightarrow>
          (case resoudre_mouvements feux pietons g
                  (voitures_a_resoudre_mouvement melange temps_actuel vs1)
                  (position ` set (filter (\<lambda>v. temps_arrivee v = None) vs1), Map.empty, vs1) of
             Inl e \<Rightarrow> Some (Inl e)
           | Inr (projected_occupied_cells, approved_moves, vs2) \<Rightarrow>
               Some (Inr (approved_moves, vs2))))"

text \<open>One call of \<^verbatim>\<open>mettre_a_jour_voitures\<close> at time \<open>temps_actuel\<close>. The result is
  \<open>None\<close> when the call does not return, \<open>Some (Inl e)\<close> when it raises and
  \<open>Some (Inr vs)\<close> when it returns with the car list \<open>vs\<close>.\<close>

definition mettre_a_jour_voitures ::
  "(nat list \<Rightarrow> nat list) \<Rightarrow> real \<Rightarrow> voiture list \<Rightarrow> grille \<Rightarrow> feu list
   \<Rightarrow> directions \<Rightarrow> directions \<Rightarrow> int \<Rightarrow> int \<Rightarrow> pieton list
   \<Rightarrow> (erreur + voiture list) option" where
  "mettre_a_jour_voitures melange temps_actuel voitures g feux dl dc taille_x taille_y pietons =
     (case mouvements_approuves melange temps_actuel voitures g feux dl dc pietons of
        None \<Rightarrow> None
      | Some (Inl e) \<Rightarrow> Some (Inl e)
      | Some (Inr (approved_moves, vs2)) \<Rightarrow>
          Some (Inr (map (appliquer_mouvement temps_actuel approved_moves) vs2)))"

text \<open>A car with its blocked-since time stamp forgotten: the resolution loop changes
  no other field.\<close>

definition sans_blocage :: "voiture \<Rightarrow> voiture" where
  "sans_blocage v = v\<lparr>bloquee_depuis := None\<rparr>"

text \<open>The calls of \<^verbatim>\<open>mettre_a_jour_voitures\<close> that the main loop makes one after the
  other, at the times of the list, on the same grid, lights and pedestrians.\<close>

fun ticks_successifs ::
  "(nat list \<Rightarrow> nat list) \<Rightarrow> real list \<Rightarrow> voiture list \<Rightarrow> grille \<Rightarrow> feu list
   \<Rightarrow> directions \<Rightarrow> directions \<Rightarrow> int \<Rightarrow> int \<Rightarrow> pieton list
   \<Rightarrow> (erreur + voiture list) option" where
  "ticks_successifs melange [] voitures g feux dl dc taille_x taille_y pietons =
     Some (Inr voitures)"
| "ticks_successifs melange (t # ts) voitures g feux dl dc taille_x taille_y pietons =
     (case mettre_a_jour_voitures melange t voitures g feux dl dc taille_x taille_y pietons of
        None \<Rightarrow> None
      | Some (Inl e) \<Rightarrow> Some (Inl e)
      | Some (Inr voitures') \<Rightarrow>
          ticks_successifs melange ts voitures' g feux dl dc taille_x taille_y pietons)"

text \<open>The state of the stored paths between two events of the main loop: the stored
  path of a car that has not arrived runs through ROUTE cells of the grid and, when it
  is not empty, ends at the destination of the car.\<close>

definition chemins_praticables :: "grille \<Rightarrow> voiture list \<Rightarrow> bool" where
  "chemins_praticables g voitures \<longleftrightarrow>
     (\<forall>v \<in> set voitures. temps_arrivee v = None \<longrightarrow>
        list_all (est_route g) (chemin v)
        \<and> (chemin v \<noteq> [] \<longrightarrow> last (chemin v) = destination v))"

text \<open>The same for one car.\<close>

definition chemin_praticable :: "grille \<Rightarrow> voiture \<Rightarrow> bool" where
  "chemin_praticable g v \<longleftrightarrow>
     (temps_arrivee v = None \<longrightarrow>
        list_all (est_route g) (chemin v)
        \<and> (chemin v \<noteq> [] \<longrightarrow> last (chemin v) = destination v))"

section \<open>Invariants of the search\<close>

text \<open>
  The edges of the graph that the planner searches, one relaxation step of the loop
  over the directions, and the invariants that the correctness proof of the search
  carries: \<open>H\<close> is the open list, \<open>P\<close> is \<^verbatim>\<open>precedent\<close> and \<open>G\<close> is \<^verbatim>\<open>cout_g\<close>.
\<close>

definition arete :: "grille \<Rightarrow> directions \<Rightarrow> directions \<Rightarrow> case_t \<Rightarrow> case_t \<Rightarrow> bool" where
  "arete g dl dc a b \<longleftrightarrow> mouvement_legal dl dc a b \<and> est_route g b"

definition relacher ::
  "grille \<Rightarrow> directions \<Rightarrow> directions \<Rightarrow> case_t \<Rightarrow> case_t \<Rightarrow> int \<Rightarrow> case_t
   \<Rightarrow> etat_recherche \<Rightarrow> etat_recherche" where
  "relacher g dl dc arrivee c gc w s =
     (case s of (H, P, G) \<Rightarrow>
        if arete g dl dc c w \<and> (case G w of None \<Rightarrow> True | Some gv \<Rightarrow> gc + 1 < gv)
        then ((gc + 1 + heuristique w arrivee, w) # H, P(w \<mapsto> c), G(w \<mapsto> gc + 1))
        else s)"

definition inv_base ::
  "grille \<Rightarrow> directions \<Rightarrow> directions \<Rightarrow> case_t \<Rightarrow> (case_t \<rightharpoonup> case_t) \<Rightarrow> (case_t \<rightharpoonup> int) \<Rightarrow> bool" where
  "inv_base g dl dc depart P G \<longleftrightarrow>
     G depart = Some 0 \<and> P depart = None
     \<and> (\<forall>v x. G v = Some x \<longrightarrow> 0 \<le> x \<and> est_route g v)
     \<and> (\<forall>v x. G v = Some x \<longrightarrow> v \<noteq> depart \<longrightarrow>
           (\<exists>u y. P v = Some u \<and> G u = Some y \<and> arete g dl dc u v \<and> y + 1 \<le> x))"

definition inv_tas :: "case_t \<Rightarrow> (int \<times> case_t) list \<Rightarrow> (case_t \<rightharpoonup> int) \<Rightarrow> bool" where
  "inv_tas arrivee H G \<longleftrightarrow>
     (\<forall>f v. (f, v) \<in> set H \<longrightarrow> (\<exists>x. G v = Some x \<and> x + heuristique v arrivee \<le> f))"

definition inv_front ::
  "grille \<Rightarrow> directions \<Rightarrow> directions \<Rightarrow> case_t \<Rightarrow> case_t \<Rightarrow> case_t set
   \<Rightarrow> (int \<times> case_t) list \<Rightarrow> (case_t \<rightharpoonup> int) \<Rightarrow> bool" where
  "inv_front g dl dc arrivee c R H G \<longleftrightarrow>
     (\<forall>v x. G v = Some x \<longrightarrow>
        (x + heuristique v arrivee, v) \<in> set H
        \<or> (v \<noteq> arrivee
            \<and> (\<forall>w. arete g dl dc v w \<longrightarrow>
                  (v = c \<and> w \<in> R) \<or> (\<exists>y. G w = Some y \<and> y \<le> x + 1))))"

text \<open>The three invariants together, while the cell \<open>c\<close> is being expanded and the
  neighbours in \<open>R\<close> are still to be looked at.\<close>

definition inv_rech ::
  "grille \<Rightarrow> directions \<Rightarrow> directions \<Rightarrow> case_t \<Rightarrow> case_t \<Rightarrow> case_t \<Rightarrow> case_t set
   \<Rightarrow> etat_recherche \<Rightarrow> bool" where
  "inv_rech g dl dc depart arrivee c R s \<longleftrightarrow>
     (case s of (H, P, G) \<Rightarrow>
        inv_base g dl dc depart P G \<and> inv_tas arrivee H G
        \<and> inv_front g dl dc arrivee c R H G)"

definition cases_route :: "grille \<Rightarrow> case_t set" where
  "cases_route g = {v. est_route g v}"

definition mes12 :: "grille \<Rightarrow> (case_t \<rightharpoonup> int) \<Rightarrow> nat \<times> nat" where
  "mes12 g G =
     (card (cases_route g - dom G),
      (\<Sum>v \<in> cases_route g. (case G v of None \<Rightarrow> 0 | Some x \<Rightarrow> nat x)))"

definition voisins :: "case_t \<Rightarrow> (int \<times> int) list \<Rightarrow> case_t set" where
  "voisins c ds = (\<lambda>d. (fst c + fst d, snd c + snd d)) ` set ds"

definition resultat_correct ::
  "grille \<Rightarrow> directions \<Rightarrow> directions \<Rightarrow> case_t \<Rightarrow> case_t \<Rightarrow> case_t list option \<Rightarrow> bool" where
  "resultat_correct g dl dc depart arrivee r \<longleftrightarrow>
     (case r of
        None \<Rightarrow> (\<forall>q. \<not> itineraire g dl dc depart arrivee q)
      | Some p \<Rightarrow> itineraire g dl dc depart arrivee p
          \<and> (\<forall>q. itineraire g dl dc depart arrivee q \<longrightarrow> length p \<le> length q))"

definition mes_rech :: "grille \<Rightarrow> etat_recherche \<Rightarrow> (nat \<times> nat) \<times> nat" where
  "mes_rech g s = (case s of (H, P, G) \<Rightarrow> (mes12 g G, length H))"

definition ordre_rech :: "grille \<Rightarrow> (etat_recherche \<times> etat_recherche) set" where
  "ordre_rech g = inv_image ((less_than <*lex*> less_than) <*lex*> less_than) (mes_rech g)"

section \<open>Facts about indexing\<close>

lemma indice_dans: "0 \<le> i \<Longrightarrow> i < int n \<Longrightarrow> indice n i = Inr (nat i)"
  by (simp add: indice_def)

lemma cellule_dans:
  "dans_grille g x y \<Longrightarrow> cellule g x y = Inr (g ! nat y ! nat x)"
  by (simp add: cellule_def dans_grille_def indice_dans)

lemma ecrire_dans:
  "dans_grille g x y \<Longrightarrow>
   ecrire g x y c = Inr (g[nat y := (g ! nat y)[nat x := c]])"
  by (simp add: ecrire_def dans_grille_def indice_dans)

section \<open>Obstacle placement\<close>

text \<open>
  Claim C6. On a cell of the grid, \<^verbatim>\<open>ajouter_obstacle_manuel\<close> and
  \<^verbatim>\<open>ajouter_obstacle_auto\<close> return True and write their obstacle symbol at
  \<open>(x, y)\<close> exactly when the cell is ROUTE, \<open>(x, y)\<close> is not the position of a traffic
  light and the cell is not already an obstacle; in every other case they return False
  and the grid is the one they were given.
\<close>

theorem C6_ajouter_obstacle:
  assumes "dans_grille g x y"
  shows "ajouter_obstacle_manuel g x y feux =
           (if g ! nat y ! nat x = ROUTE \<and> (x, y) \<notin> position_feu ` set feux
               \<and> g ! nat y ! nat x \<notin> {OBSTACLE_MANUEL, OBSTACLE_AUTO_SYM}
            then Inr (True, g[nat y := (g ! nat y)[nat x := OBSTACLE_MANUEL]])
            else Inr (False, g))
       \<and> ajouter_obstacle_auto g x y feux =
           (if g ! nat y ! nat x = ROUTE \<and> (x, y) \<notin> position_feu ` set feux
               \<and> g ! nat y ! nat x \<notin> {OBSTACLE_MANUEL, OBSTACLE_AUTO_SYM}
            then Inr (True, g[nat y := (g ! nat y)[nat x := OBSTACLE_AUTO_SYM]])
            else Inr (False, g))"
proof -
  have sym: "ROUTE \<notin> SYMBOLES_NON_PRATICABLES" "ROUTE \<noteq> OBSTACLE_MANUEL"
    "ROUTE \<noteq> OBSTACLE_AUTO_SYM"
    by (simp_all add: SYMBOLES_NON_PRATICABLES_def ROUTE_def NON_ROUTIER_def
        OBSTACLE_MANUEL_def OBSTACLE_AUTO_SYM_def)
  show ?thesis
    using sym
    by (auto simp: ajouter_obstacle_manuel_def ajouter_obstacle_auto_def
        cellule_dans [OF assms] ecrire_dans [OF assms] Let_def)
qed

theorem C6_ajouter_obstacle_witness:
  "dans_grille [''N N'', ''   ''] 1 1
   \<and> ajouter_obstacle_manuel [''N N'', ''   ''] 1 1 [] = Inr (True, [''N N'', '' X ''])
   \<and> ajouter_obstacle_auto [''N N'', ''   ''] 1 1 [] = Inr (True, [''N N'', '' A ''])
   \<and> ajouter_obstacle_manuel [''N N'', '' X ''] 1 1 [] = Inr (False, [''N N'', '' X ''])"
proof -
  have d: "dans_grille [''N N'', ''   ''] 1 1" by (simp add: dans_grille_def)
  have d': "dans_grille [''N N'', '' X ''] 1 1" by (simp add: dans_grille_def)
  show ?thesis
    using d C6_ajouter_obstacle [OF d, of "[]"] C6_ajouter_obstacle [OF d', of "[]"]
    by (simp add: ROUTE_def OBSTACLE_MANUEL_def OBSTACLE_AUTO_SYM_def)
qed

section \<open>Traffic-light state machine\<close>











section \<open>Pedestrian update\<close>

text \<open>What an update does to the active pedestrians, for any list of cars: only the
  cars that have not arrived (\<^verbatim>\<open>temps_arrivee\<close> unset) hold a pedestrian back.\<close>

lemma mettre_a_jour_pietons_general:
  assumes "mettre_a_jour_pietons passages_pietons voitures r k (pietons_actifs, n)
             = (pietons_actifs', n')"
  shows "\<exists>nouveaux.
           pietons_actifs' =
             filter (\<lambda>q. progres q < 1)
               (map (\<lambda>p. if (\<exists>v \<in> set voitures. temps_arrivee v = None
                                   \<and> position v = passage_pos p)
                          then p else p\<lparr>progres := progres p + VITESSE_PIETON\<rparr>) pietons_actifs)
             @ nouveaux
         \<and> length nouveaux \<le> 1 \<and> (\<forall>q \<in> set nouveaux. progres q = 0)"
proof -
  have av: "avancer_pieton voitures =
      (\<lambda>p. if (\<exists>v \<in> set voitures. temps_arrivee v = None \<and> position v = passage_pos p)
            then p else p\<lparr>progres := progres p + VITESSE_PIETON\<rparr>)"
    by (auto simp: avancer_pieton_def voiture_presente_sur_passage_def fun_eq_iff)
  show ?thesis
    using assms unfolding mettre_a_jour_pietons_def av Let_def
    by (auto split: if_splits)
qed

text \<open>
  Claim C8. A car that has arrived never stands on the crossing cell of an active
  pedestrian: a pedestrian appears only on a cell where no car of the list stands, and
  no car moves onto the cell of a pedestrian whose progress is below 1. In such a state,
  on each update, the progress of every active pedestrian is advanced by
  \<^verbatim>\<open>VITESSE_PIETON\<close> exactly when no car stands on its crossing cell, and is unchanged
  otherwise; the pedestrians whose progress is then 1 or more are removed in that same
  update, the others are kept in order; at most one new pedestrian, of progress 0, is
  appended.
\<close>

theorem C8_pietons:
  assumes "mettre_a_jour_pietons passages_pietons voitures r k (pietons_actifs, n)
             = (pietons_actifs', n')"
    and "\<forall>v \<in> set voitures. temps_arrivee v \<noteq> None \<longrightarrow>
           position v \<notin> passage_pos ` set pietons_actifs"
  shows "\<exists>nouveaux.
           pietons_actifs' =
             filter (\<lambda>q. progres q < 1)
               (map (\<lambda>p. if (\<exists>v \<in> set voitures. position v = passage_pos p)
                          then p else p\<lparr>progres := progres p + VITESSE_PIETON\<rparr>) pietons_actifs)
             @ nouveaux
         \<and> length nouveaux \<le> 1 \<and> (\<forall>q \<in> set nouveaux. progres q = 0)"
proof -
  have "map (\<lambda>p. if (\<exists>v \<in> set voitures. temps_arrivee v = None
                                   \<and> position v = passage_pos p)
                          then p else p\<lparr>progres := progres p + VITESSE_PIETON\<rparr>) pietons_actifs
      = map (\<lambda>p. if (\<exists>v \<in> set voitures. position v = passage_pos p)
                          then p else p\<lparr>progres := progres p + VITESSE_PIETON\<rparr>) pietons_actifs"
  proof (rule map_cong [OF refl])
    fix p assume p: "p \<in> set pietons_actifs"
    have "(\<exists>v \<in> set voitures. temps_arrivee v = None \<and> position v = passage_pos p)
          \<longleftrightarrow> (\<exists>v \<in> set voitures. position v = passage_pos p)"
      using assms(2) p by (metis imageI)
    then show "(if (\<exists>v \<in> set voitures. temps_arrivee v = None \<and> position v = passage_pos p)
                then p else p\<lparr>progres := progres p + VITESSE_PIETON\<rparr>)
             = (if (\<exists>v \<in> set voitures. position v = passage_pos p)
                then p else p\<lparr>progres := progres p + VITESSE_PIETON\<rparr>)"
      by simp
  qed
  with mettre_a_jour_pietons_general [OF assms(1)] show ?thesis by simp
qed

theorem C8_pietons_witness:
  "mettre_a_jour_pietons []
     [\<lparr>id_v = 1, position = (4, 1), destination = (9, 1), chemin = [(5, 1)],
        temps_arrivee = None, dernier_deplacement = 0, orientation = 0,
        bloquee_depuis = None, recalcul_echecs = 0\<rparr>,
      \<lparr>id_v = 2, position = (7, 7), destination = (7, 7), chemin = [],
        temps_arrivee = Some 0, dernier_deplacement = 0, orientation = 0,
        bloquee_depuis = None, recalcul_echecs = 0\<rparr>] 1 0
     ([\<lparr>id_p = 0, passage_pos = (1, 1), orientation_p = ''horizontal'', progres = 99 / 100\<rparr>,
       \<lparr>id_p = 1, passage_pos = (4, 1), orientation_p = ''vertical'', progres = 1 / 2\<rparr>,
       \<lparr>id_p = 2, passage_pos = (2, 2), orientation_p = ''vertical'', progres = 1 / 2\<rparr>], 3)
   = ([\<lparr>id_p = 1, passage_pos = (4, 1), orientation_p = ''vertical'', progres = 1 / 2\<rparr>,
       \<lparr>id_p = 2, passage_pos = (2, 2), orientation_p = ''vertical'', progres = 52 / 100\<rparr>], 3)"
proof -
  let ?vs = "[\<lparr>id_v = 1, position = (4, 1), destination = (9, 1), chemin = [(5, 1)],
        temps_arrivee = None, dernier_deplacement = 0, orientation = 0,
        bloquee_depuis = None, recalcul_echecs = 0\<rparr>,
      \<lparr>id_v = 2, position = (7, 7), destination = (7, 7), chemin = [],
        temps_arrivee = Some 0, dernier_deplacement = 0, orientation = 0,
        bloquee_depuis = None, recalcul_echecs = (0::int)\<rparr>]"
  let ?ps = "[\<lparr>id_p = 0, passage_pos = (1, 1), orientation_p = ''horizontal'', progres = 99 / 100\<rparr>,
       \<lparr>id_p = 1, passage_pos = (4, 1), orientation_p = ''vertical'', progres = 1 / 2\<rparr>,
       \<lparr>id_p = 2, passage_pos = (2, 2), orientation_p = ''vertical'', progres = 1 / 2\<rparr>]"
  obtain ps n where e: "mettre_a_jour_pietons [] ?vs 1 0 (?ps, 3) = (ps, n)"
    by (cases "mettre_a_jour_pietons [] ?vs 1 0 (?ps, 3)")
  have h: "\<forall>v \<in> set ?vs. temps_arrivee v \<noteq> None \<longrightarrow> position v \<notin> passage_pos ` set ?ps"
    by simp
  have n: "n = 3" and l: "length ps = 2"
    using e by (auto simp: mettre_a_jour_pietons_def avancer_pieton_def
        voiture_presente_sur_passage_def VITESSE_PIETON_def)
  from C8_pietons [OF e h] obtain nouveaux where
    "ps = [\<lparr>id_p = 1, passage_pos = (4, 1), orientation_p = ''vertical'', progres = 1 / 2\<rparr>,
           \<lparr>id_p = 2, passage_pos = (2, 2), orientation_p = ''vertical'',
             progres = 52 / 100\<rparr>] @ nouveaux"
    by (auto simp: VITESSE_PIETON_def)
  with l have "ps = [\<lparr>id_p = 1, passage_pos = (4, 1), orientation_p = ''vertical'', progres = 1 / 2\<rparr>,
           \<lparr>id_p = 2, passage_pos = (2, 2), orientation_p = ''vertical'',
             progres = 52 / 100\<rparr>]" by simp
  with e n show ?thesis by simp
qed

section \<open>Forced replan after an obstacle event\<close>



lemma indice_Inr: "indice n i = Inr j \<Longrightarrow> j < n"
  by (auto simp: indice_def Let_def split: if_splits)

lemma cellule_ecrire:
  assumes "ecrire g x y c = Inr g'"
  shows "cellule g' x y = Inr c"
proof -
  from assms obtain j i where j: "indice (length g) y = Inr j"
    and i: "indice (length (g ! j)) x = Inr i"
    and g': "g' = g[j := (g ! j)[i := c]]"
    by (auto simp: ecrire_def split: sum.splits)
  have jl: "j < length g" and il: "i < length (g ! j)"
    using j i by (auto dest: indice_Inr)
  show ?thesis
    using j i jl il by (simp add: cellule_def g')
qed

lemma ajouter_obstacle_manuel_succes:
  "ajouter_obstacle_manuel g x y feux = Inr (True, g') \<Longrightarrow>
   cellule g x y = Inr ROUTE \<and> cellule g' x y = Inr OBSTACLE_MANUEL"
  by (auto simp: ajouter_obstacle_manuel_def Let_def cellule_ecrire
      split: sum.splits if_splits)

lemma ajouter_obstacle_auto_succes:
  "ajouter_obstacle_auto g x y feux = Inr (True, g') \<Longrightarrow>
   cellule g x y = Inr ROUTE \<and> cellule g' x y = Inr OBSTACLE_AUTO_SYM"
  by (auto simp: ajouter_obstacle_auto_def Let_def cellule_ecrire
      split: sum.splits if_splits)











section \<open>Correctness of the planner\<close>

lemma grille_valide_dans:
  assumes "grille_valide g"
  shows "dans_grille g x y \<longleftrightarrow>
         0 \<le> x \<and> x < int (length (hd g)) \<and> 0 \<le> y \<and> y < int (length g)"
proof (cases "0 \<le> y \<and> y < int (length g)")
  case True
  then have "nat y < length g" by linarith
  then have "g ! nat y \<in> set g" by (rule nth_mem)
  then have "length (g ! nat y) = length (hd g)"
    using assms unfolding grille_valide_def by blast
  then show ?thesis using True by (simp add: dans_grille_def)
next
  case False
  then show ?thesis by (auto simp: dans_grille_def)
qed

lemma move_is_allowed_legal:
  assumes "d \<in> set cardinal_directions"
  shows "move_is_allowed dl dc (cx, cy) d
         \<longleftrightarrow> mouvement_legal dl dc (cx, cy) (cx + fst d, cy + snd d)"
proof -
  from assms consider "d = (0, 1)" | "d = (0, -1)" | "d = (1, 0)" | "d = (-1, 0)"
    by (auto simp: cardinal_directions_def)
  then show ?thesis
  proof cases
    case 1 then show ?thesis by (simp add: move_is_allowed_def mouvement_legal_def)
  next
    case 2 then show ?thesis by (simp add: move_is_allowed_def mouvement_legal_def)
  next
    case 3 then show ?thesis by (simp add: move_is_allowed_def mouvement_legal_def)
  next
    case 4 then show ?thesis by (simp add: move_is_allowed_def mouvement_legal_def)
  qed
qed

lemma grille_valide_largeur:
  "grille_valide g \<Longrightarrow> largeur g = Inr (int (length (hd g)))"
  by (cases g) (simp_all add: grille_valide_def largeur_def)

lemma mouvement_legal_cardinal:
  assumes "mouvement_legal dl dc c w"
  shows "\<exists>d \<in> set cardinal_directions. w = (fst c + fst d, snd c + snd d)"
proof -
  let ?d = "(fst w - fst c, snd w - snd c)"
  from assms have "?d = (0, 1) \<or> ?d = (0, -1) \<or> ?d = (1, 0) \<or> ?d = (-1, 0)"
    unfolding mouvement_legal_def by (elim disjE conjE) simp_all
  then have "?d \<in> set cardinal_directions"
    unfolding cardinal_directions_def by simp
  moreover have "w = (fst c + fst ?d, snd c + snd ?d)" by simp
  ultimately show ?thesis by blast
qed

lemma explorer_voisin_relacher:
  assumes "grille_valide g" and "G c = Some gc" and "d \<in> set cardinal_directions"
  shows "explorer_voisin g (int (length (hd g))) (int (length g)) dl dc arrivee c d (H, P, G)
         = Inr (relacher g dl dc arrivee c gc (fst c + fst d, snd c + snd d) (H, P, G))"
proof -
  obtain cx cy where c: "c = (cx, cy)" by (cases c)
  obtain dx dy where d: "d = (dx, dy)" by (cases d)
  let ?w = "(cx + dx, cy + dy)"
  have m: "move_is_allowed dl dc (cx, cy) (dx, dy) \<longleftrightarrow> mouvement_legal dl dc (cx, cy) ?w"
    using move_is_allowed_legal [OF assms(3), of dl dc cx cy] by (simp add: d)
  show ?thesis
  proof (cases "dans_grille g (cx + dx) (cy + dy)")
    case False
    then have nr: "\<not> est_route g ?w" by (simp add: est_route_def)
    have nb: "\<not> (0 \<le> cx + dx \<and> cx + dx < int (length (hd g))
                 \<and> 0 \<le> cy + dy \<and> cy + dy < int (length g))"
      using False grille_valide_dans [OF assms(1), of "cx + dx" "cy + dy"] by simp
    have "explorer_voisin g (int (length (hd g))) (int (length g)) dl dc arrivee c d (H, P, G)
          = Inr (H, P, G)"
      unfolding explorer_voisin_def c d using nb by (simp add: Let_def)
    moreover have "relacher g dl dc arrivee c gc ?w (H, P, G) = (H, P, G)"
      using nr by (simp add: relacher_def arete_def)
    ultimately show ?thesis by (simp add: c d)
  next
    case True
    then have b: "0 \<le> cx + dx \<and> cx + dx < int (length (hd g))
                 \<and> 0 \<le> cy + dy \<and> cy + dy < int (length g)"
      using grille_valide_dans [OF assms(1)] by simp
    have r: "est_route g ?w \<longleftrightarrow> g ! nat (cy + dy) ! nat (cx + dx) = ROUTE"
      using True by (simp add: est_route_def)
    have cel: "cellule g (cx + dx) (cy + dy) = Inr (g ! nat (cy + dy) ! nat (cx + dx))"
      by (rule cellule_dans [OF True])
    have gc: "G (cx, cy) = Some gc" using assms(2) by (simp add: c)
    show ?thesis
    proof (cases "arete g dl dc (cx, cy) ?w")
      case False
      then have "explorer_voisin g (int (length (hd g))) (int (length g)) dl dc arrivee c d
                   (H, P, G) = Inr (H, P, G)"
        unfolding explorer_voisin_def c d using b cel r m
        by (simp add: Let_def arete_def)
      moreover have "relacher g dl dc arrivee c gc ?w (H, P, G) = (H, P, G)"
        using False by (simp add: relacher_def c)
      ultimately show ?thesis by (simp add: c d)
    next
      case A: True
      then have rr: "g ! nat (cy + dy) ! nat (cx + dx) = ROUTE"
        and mm: "move_is_allowed dl dc (cx, cy) (dx, dy)"
        using r m by (simp_all add: arete_def)
      show ?thesis
      proof (cases "case G ?w of None \<Rightarrow> True | Some gv \<Rightarrow> gc + 1 < gv")
        case True
        then have "explorer_voisin g (int (length (hd g))) (int (length g)) dl dc arrivee c d
                   (H, P, G)
              = Inr ((gc + 1 + heuristique ?w arrivee, ?w) # H, P(?w \<mapsto> (cx, cy)),
                     G(?w \<mapsto> gc + 1))"
          unfolding explorer_voisin_def c d using b cel rr mm gc
          by (simp add: Let_def heappush_def)
        moreover have "relacher g dl dc arrivee c gc ?w (H, P, G)
              = ((gc + 1 + heuristique ?w arrivee, ?w) # H, P(?w \<mapsto> (cx, cy)),
                     G(?w \<mapsto> gc + 1))"
          using A True by (simp add: relacher_def c)
        ultimately show ?thesis by (simp add: c d)
      next
        case False
        then have "explorer_voisin g (int (length (hd g))) (int (length g)) dl dc arrivee c d
                   (H, P, G) = Inr (H, P, G)"
          unfolding explorer_voisin_def c d using b cel rr mm gc
          by (simp add: Let_def)
        moreover have "relacher g dl dc arrivee c gc ?w (H, P, G) = (H, P, G)"
          using False by (simp add: relacher_def c)
        ultimately show ?thesis by (simp add: c d)
      qed
    qed
  qed
qed

lemma inv_base_relacher:
  assumes b: "inv_base g dl dc depart P G"
    and gc: "G c = Some gc" and a: "arete g dl dc c w"
    and cond: "case G w of None \<Rightarrow> True | Some gv \<Rightarrow> gc + 1 < gv"
  shows "inv_base g dl dc depart (P(w \<mapsto> c)) (G(w \<mapsto> gc + 1))"
proof -
  from b have d0: "G depart = Some 0" and p0: "P depart = None"
    and pos: "\<And>v x. G v = Some x \<Longrightarrow> 0 \<le> x \<and> est_route g v"
    and pre: "\<And>v x. G v = Some x \<Longrightarrow> v \<noteq> depart \<Longrightarrow>
           \<exists>u y. P v = Some u \<and> G u = Some y \<and> arete g dl dc u v \<and> y + 1 \<le> x"
    unfolding inv_base_def by blast+
  have gc0: "0 \<le> gc" using pos [OF gc] by simp
  have wd: "w \<noteq> depart"
  proof
    assume "w = depart"
    with cond d0 have "gc + 1 < 0" by simp
    with gc0 show False by simp
  qed
  have wc: "w \<noteq> c"
  proof
    assume "w = c"
    with cond gc show False by simp
  qed
  have rw: "est_route g w" using a by (simp add: arete_def)
  have i2: "\<forall>v x. (G(w \<mapsto> gc + 1)) v = Some x \<longrightarrow> 0 \<le> x \<and> est_route g v"
    using pos gc0 rw by (auto split: if_splits)
  have i3: "\<forall>v x. (G(w \<mapsto> gc + 1)) v = Some x \<longrightarrow> v \<noteq> depart \<longrightarrow>
           (\<exists>u y. (P(w \<mapsto> c)) v = Some u \<and> (G(w \<mapsto> gc + 1)) u = Some y
                  \<and> arete g dl dc u v \<and> y + 1 \<le> x)"
  proof (intro allI impI)
    fix v x assume vx: "(G(w \<mapsto> gc + 1)) v = Some x" and vd: "v \<noteq> depart"
    show "\<exists>u y. (P(w \<mapsto> c)) v = Some u \<and> (G(w \<mapsto> gc + 1)) u = Some y
                  \<and> arete g dl dc u v \<and> y + 1 \<le> x"
    proof (cases "v = w")
      case True
      then have "x = gc + 1" using vx by simp
      then show ?thesis using True gc wc a by auto
    next
      case False
      then have "G v = Some x" using vx by simp
      from pre [OF this vd] obtain u y where
        u: "P v = Some u" "G u = Some y" "arete g dl dc u v" "y + 1 \<le> x" by blast
      show ?thesis
      proof (cases "u = w")
        case True
        then have "gc + 1 < y" using cond u(2) by simp
        then show ?thesis using True False u by auto
      next
        case uw: False
        then show ?thesis using False u by auto
      qed
    qed
  qed
  show ?thesis
    unfolding inv_base_def using d0 p0 wd i2 i3 by simp
qed

lemma inv_tas_relacher:
  assumes t: "inv_tas arrivee H G"
    and cond: "case G w of None \<Rightarrow> True | Some gv \<Rightarrow> n < gv"
  shows "inv_tas arrivee ((n + heuristique w arrivee, w) # H) (G(w \<mapsto> n))"
proof -
  have "\<exists>x. (G(w \<mapsto> n)) v = Some x \<and> x + heuristique v arrivee \<le> f"
    if m: "(f, v) \<in> set ((n + heuristique w arrivee, w) # H)" for f v
  proof (cases "v = w")
    case True
    from m consider "f = n + heuristique w arrivee" | "(f, w) \<in> set H" using True by auto
    then show ?thesis
    proof cases
      case 1 then show ?thesis using True by simp
    next
      case 2
      with t obtain x where "G w = Some x" "x + heuristique w arrivee \<le> f"
        unfolding inv_tas_def by blast
      then show ?thesis using cond True by simp
    qed
  next
    case False
    with m have "(f, v) \<in> set H" by simp
    with t obtain x where "G v = Some x" "x + heuristique v arrivee \<le> f"
      unfolding inv_tas_def by blast
    then show ?thesis using False by simp
  qed
  then show ?thesis unfolding inv_tas_def by blast
qed

lemma inv_front_relacher_maj:
  assumes f: "inv_front g dl dc arrivee c R H G"
    and gc: "G c = Some gc"
    and cond: "case G w of None \<Rightarrow> True | Some gv \<Rightarrow> gc + 1 < gv"
  shows "inv_front g dl dc arrivee c (R - {w})
           ((gc + 1 + heuristique w arrivee, w) # H) (G(w \<mapsto> gc + 1))"
  unfolding inv_front_def
proof (intro allI impI)
  fix v x assume vx: "(G(w \<mapsto> gc + 1)) v = Some x"
  let ?H = "(gc + 1 + heuristique w arrivee, w) # H"
  let ?G = "G(w \<mapsto> gc + 1)"
  show "(x + heuristique v arrivee, v) \<in> set ?H
        \<or> (v \<noteq> arrivee
            \<and> (\<forall>w'. arete g dl dc v w' \<longrightarrow>
                  (v = c \<and> w' \<in> R - {w}) \<or> (\<exists>y. ?G w' = Some y \<and> y \<le> x + 1)))"
  proof (cases "v = w")
    case True
    then have "x = gc + 1" using vx by simp
    then show ?thesis using True by simp
  next
    case False
    then have gv: "G v = Some x" using vx by simp
    from f gv consider (tas) "(x + heuristique v arrivee, v) \<in> set H"
      | (clos) "v \<noteq> arrivee" "\<forall>w'. arete g dl dc v w' \<longrightarrow>
                  (v = c \<and> w' \<in> R) \<or> (\<exists>y. G w' = Some y \<and> y \<le> x + 1)"
      unfolding inv_front_def by blast
    then show ?thesis
    proof cases
      case tas then show ?thesis by simp
    next
      case clos
      have "(v = c \<and> w' \<in> R - {w}) \<or> (\<exists>y. ?G w' = Some y \<and> y \<le> x + 1)"
        if a: "arete g dl dc v w'" for w'
      proof (cases "w' = w")
        case True
        have "gc \<le> x"
        proof (cases "v = c")
          case True then show ?thesis using gv gc by simp
        next
          case False
          with clos(2) a obtain y where "G w' = Some y" "y \<le> x + 1" by blast
          then show ?thesis using cond True by simp
        qed
        then show ?thesis using True by simp
      next
        case False
        from clos(2) a have "(v = c \<and> w' \<in> R) \<or> (\<exists>y. G w' = Some y \<and> y \<le> x + 1)"
          by blast
        then show ?thesis using False by auto
      qed
      then show ?thesis using clos(1) by blast
    qed
  qed
qed

lemma inv_front_relacher_idem:
  assumes f: "inv_front g dl dc arrivee c R H G"
    and gc: "G c = Some gc"
    and ncond: "\<not> (arete g dl dc c w \<and> (case G w of None \<Rightarrow> True | Some gv \<Rightarrow> gc + 1 < gv))"
  shows "inv_front g dl dc arrivee c (R - {w}) H G"
  unfolding inv_front_def
proof (intro allI impI)
  fix v x assume gv: "G v = Some x"
  from f gv consider (tas) "(x + heuristique v arrivee, v) \<in> set H"
    | (clos) "v \<noteq> arrivee" "\<forall>w'. arete g dl dc v w' \<longrightarrow>
                (v = c \<and> w' \<in> R) \<or> (\<exists>y. G w' = Some y \<and> y \<le> x + 1)"
    unfolding inv_front_def by blast
  then show "(x + heuristique v arrivee, v) \<in> set H
        \<or> (v \<noteq> arrivee
            \<and> (\<forall>w'. arete g dl dc v w' \<longrightarrow>
                  (v = c \<and> w' \<in> R - {w}) \<or> (\<exists>y. G w' = Some y \<and> y \<le> x + 1)))"
  proof cases
    case tas then show ?thesis by simp
  next
    case clos
    have "(v = c \<and> w' \<in> R - {w}) \<or> (\<exists>y. G w' = Some y \<and> y \<le> x + 1)"
      if a: "arete g dl dc v w'" for w'
    proof (cases "v = c \<and> w' = w")
      case True
      with a ncond have "\<not> (case G w of None \<Rightarrow> True | Some gv \<Rightarrow> gc + 1 < gv)" by simp
      then obtain y where "G w = Some y" "y \<le> gc + 1" by (cases "G w") auto
      then show ?thesis using True gv gc by simp
    next
      case False
      from clos(2) a have "(v = c \<and> w' \<in> R) \<or> (\<exists>y. G w' = Some y \<and> y \<le> x + 1)"
        by blast
      then show ?thesis using False by auto
    qed
    then show ?thesis using clos(1) by blast
  qed
qed

lemma inv_rech_relacher:
  assumes i: "inv_rech g dl dc depart arrivee c R (H, P, G)" and gc: "G c = Some gc"
  shows "inv_rech g dl dc depart arrivee c (R - {w}) (relacher g dl dc arrivee c gc w (H, P, G))
       \<and> (\<exists>gc'. snd (snd (relacher g dl dc arrivee c gc w (H, P, G))) c = Some gc' \<and> gc' = gc)"
proof (cases "arete g dl dc c w \<and> (case G w of None \<Rightarrow> True | Some gv \<Rightarrow> gc + 1 < gv)")
  case True
  then have a: "arete g dl dc c w"
    and cond: "case G w of None \<Rightarrow> True | Some gv \<Rightarrow> gc + 1 < gv" by simp_all
  have wc: "w \<noteq> c" using cond gc by auto
  have r: "relacher g dl dc arrivee c gc w (H, P, G)
         = ((gc + 1 + heuristique w arrivee, w) # H, P(w \<mapsto> c), G(w \<mapsto> gc + 1))"
    using True by (simp add: relacher_def)
  from i have b: "inv_base g dl dc depart P G" and t: "inv_tas arrivee H G"
    and f: "inv_front g dl dc arrivee c R H G"
    by (simp_all add: inv_rech_def)
  show ?thesis
    unfolding r inv_rech_def
    using inv_base_relacher [OF b gc a cond] inv_tas_relacher [OF t cond]
      inv_front_relacher_maj [OF f gc cond] wc gc
    by simp
next
  case False
  then have r: "relacher g dl dc arrivee c gc w (H, P, G) = (H, P, G)"
    by (simp add: relacher_def)
  from i have b: "inv_base g dl dc depart P G" and t: "inv_tas arrivee H G"
    and f: "inv_front g dl dc arrivee c R H G"
    by (simp_all add: inv_rech_def)
  show ?thesis
    unfolding r inv_rech_def
    using b t inv_front_relacher_idem [OF f gc False] gc by simp
qed

lemma finite_cases_route:
  assumes "grille_valide g"
  shows "finite (cases_route g)"
proof -
  have "cases_route g \<subseteq> {0..<int (length (hd g))} \<times> {0..<int (length g)}"
  proof
    fix v assume "v \<in> cases_route g"
    then have "dans_grille g (fst v) (snd v)" by (simp add: cases_route_def est_route_def)
    then have "0 \<le> fst v \<and> fst v < int (length (hd g)) \<and> 0 \<le> snd v \<and> snd v < int (length g)"
      using grille_valide_dans [OF assms] by simp
    then show "v \<in> {0..<int (length (hd g))} \<times> {0..<int (length g)}"
      by (cases v) simp
  qed
  then show ?thesis by (rule finite_subset) simp
qed

lemma mes12_relacher:
  assumes v: "grille_valide g" and b: "inv_base g dl dc depart P G"
    and gc: "G c = Some gc" and a: "arete g dl dc c w"
    and cond: "case G w of None \<Rightarrow> True | Some gv \<Rightarrow> gc + 1 < gv"
  shows "(mes12 g (G(w \<mapsto> gc + 1)), mes12 g G) \<in> less_than <*lex*> less_than"
proof -
  have fin: "finite (cases_route g)" by (rule finite_cases_route [OF v])
  have pos: "\<And>v x. G v = Some x \<Longrightarrow> 0 \<le> x \<and> est_route g v"
    using b unfolding inv_base_def by blast
  have gc0: "0 \<le> gc" using pos [OF gc] by simp
  have wr: "w \<in> cases_route g" using a by (simp add: arete_def cases_route_def)
  show ?thesis
  proof (cases "G w")
    case None
    then have win: "w \<in> cases_route g - dom G" using wr by (simp add: domIff)
    have eq: "cases_route g - dom (G(w \<mapsto> gc + 1)) = (cases_route g - dom G) - {w}"
      by auto
    have fd: "finite (cases_route g - dom G)" using fin by simp
    have "card (cases_route g - dom (G(w \<mapsto> gc + 1))) < card (cases_route g - dom G)"
      unfolding eq by (rule card_Diff1_less [OF fd win])
    then show ?thesis by (simp add: mes12_def)
  next
    case (Some gv)
    then have lt: "gc + 1 < gv" using cond by simp
    have d: "dom (G(w \<mapsto> gc + 1)) = dom G" using Some by (auto simp: domIff)
    let ?f = "\<lambda>G v. (case G v of None \<Rightarrow> 0 | Some x \<Rightarrow> nat x)"
    have le: "\<forall>v \<in> cases_route g. ?f (G(w \<mapsto> gc + 1)) v \<le> ?f G v"
      using Some lt gc0 by auto
    have "?f (G(w \<mapsto> gc + 1)) w < ?f G w" using Some lt gc0 by simp
    then have ex: "\<exists>v \<in> cases_route g. ?f (G(w \<mapsto> gc + 1)) v < ?f G v"
      using wr by blast
    have "(\<Sum>v \<in> cases_route g. ?f (G(w \<mapsto> gc + 1)) v) < (\<Sum>v \<in> cases_route g. ?f G v)"
      by (rule sum_strict_mono_ex1 [OF fin le ex])
    then show ?thesis unfolding mes12_def d by simp
  qed
qed

lemma explorer_voisins_inv:
  assumes v: "grille_valide g" and "set ds \<subseteq> set cardinal_directions"
    and "inv_rech g dl dc depart arrivee c R (H, P, G)" and "G c = Some gc"
  shows "\<exists>H' P' G'.
           explorer_voisins g (int (length (hd g))) (int (length g)) dl dc arrivee c ds (H, P, G)
             = Inr (H', P', G')
           \<and> inv_rech g dl dc depart arrivee c (R - voisins c ds) (H', P', G')
           \<and> G' c = Some gc
           \<and> ((H', P', G') = (H, P, G)
               \<or> (mes12 g G', mes12 g G) \<in> less_than <*lex*> less_than)"
  using assms(2-)
proof (induction ds arbitrary: H P G R)
  case Nil
  then show ?case by (simp add: voisins_def)
next
  case (Cons d ds)
  let ?w = "(fst c + fst d, snd c + snd d)"
  have dc: "d \<in> set cardinal_directions" and dsc: "set ds \<subseteq> set cardinal_directions"
    using Cons.prems(1) by simp_all
  obtain H1 P1 G1 where r: "relacher g dl dc arrivee c gc ?w (H, P, G) = (H1, P1, G1)"
    by (cases "relacher g dl dc arrivee c gc ?w (H, P, G)") blast
  have ev: "explorer_voisin g (int (length (hd g))) (int (length g)) dl dc arrivee c d (H, P, G)
            = Inr (H1, P1, G1)"
    using explorer_voisin_relacher [where G = G and c = c and gc = gc and d = d, OF v Cons.prems(3) dc]
      r by simp
  have i1: "inv_rech g dl dc depart arrivee c (R - {?w}) (H1, P1, G1)" and g1: "G1 c = Some gc"
    using inv_rech_relacher [OF Cons.prems(2) Cons.prems(3), of ?w] r by simp_all
  have m1: "(H1, P1, G1) = (H, P, G) \<or> (mes12 g G1, mes12 g G) \<in> less_than <*lex*> less_than"
  proof (cases "arete g dl dc c ?w \<and> (case G ?w of None \<Rightarrow> True | Some gv \<Rightarrow> gc + 1 < gv)")
    case True
    then have g1eq: "G1 = G(?w \<mapsto> gc + 1)" using r by (simp add: relacher_def)
    have ib: "inv_base g dl dc depart P G"
      using Cons.prems(2) by (simp add: inv_rech_def)
    from True have ta: "arete g dl dc c ?w"
      and tc: "case G ?w of None \<Rightarrow> True | Some gv \<Rightarrow> gc + 1 < gv" by simp_all
    have "(mes12 g (G(?w \<mapsto> gc + 1)), mes12 g G) \<in> less_than <*lex*> less_than"
      by (rule mes12_relacher [OF v ib Cons.prems(3) ta tc])
    then show ?thesis unfolding g1eq by simp
  next
    case False
    then have "relacher g dl dc arrivee c gc ?w (H, P, G) = (H, P, G)"
      unfolding relacher_def by (simp only: prod.case if_False)
    then show ?thesis using r by simp
  qed
  from Cons.IH [OF dsc i1 g1] obtain H' P' G' where
    e: "explorer_voisins g (int (length (hd g))) (int (length g)) dl dc arrivee c ds (H1, P1, G1)
          = Inr (H', P', G')"
    and i: "inv_rech g dl dc depart arrivee c (R - {?w} - voisins c ds) (H', P', G')"
    and g': "G' c = Some gc"
    and m: "(H', P', G') = (H1, P1, G1)
            \<or> (mes12 g G', mes12 g G1) \<in> less_than <*lex*> less_than"
    by blast
  have R: "R - {?w} - voisins c ds = R - voisins c (d # ds)"
    by (auto simp: voisins_def)
  have tr: "trans (less_than <*lex*> less_than :: ((nat \<times> nat) \<times> (nat \<times> nat)) set)"
    by (intro trans_lex_prod trans_less_than)
  have mm: "(H', P', G') = (H, P, G) \<or> (mes12 g G', mes12 g G) \<in> less_than <*lex*> less_than"
  proof -
    have "(mes12 g G', mes12 g G) \<in> less_than <*lex*> less_than"
      if "(mes12 g G', mes12 g G1) \<in> less_than <*lex*> less_than"
        and "(mes12 g G1, mes12 g G) \<in> less_than <*lex*> less_than"
      using transD [OF tr that] .
    then show ?thesis using m m1 by blast
  qed
  show ?case
    using ev e i g' mm unfolding R by simp
qed

lemma heappop_proprietes:
  assumes "H \<noteq> []" and "heappop H = (m, H')"
  shows "m \<in> set H" and "\<forall>x \<in> set H. m \<le> x" and "H' = remove1 m H"
proof -
  from assms(2) have m: "m = Min (set H)" and h: "H' = remove1 m H"
    by (auto simp: heappop_def Let_def)
  show "m \<in> set H" unfolding m using assms(1) by (intro Min_in) simp_all
  show "\<forall>x \<in> set H. m \<le> x" unfolding m by simp
  show "H' = remove1 m H" by (rule h)
qed

lemma inv_apres_pop:
  assumes i: "inv_rech g dl dc depart arrivee c0 {} (H, P, G)"
    and m: "(f, c) \<in> set H" and ca: "c \<noteq> arrivee"
  shows "inv_rech g dl dc depart arrivee c UNIV (remove1 (f, c) H, P, G)"
    and "\<exists>gc. G c = Some gc"
proof -
  from i have b: "inv_base g dl dc depart P G" and t: "inv_tas arrivee H G"
    and fr: "inv_front g dl dc arrivee c0 {} H G"
    by (simp_all add: inv_rech_def)
  show "\<exists>gc. G c = Some gc" using t m unfolding inv_tas_def by blast
  have t': "inv_tas arrivee (remove1 (f, c) H) G"
    using t set_remove1_subset [of "(f, c)" H] unfolding inv_tas_def by blast
  have f': "inv_front g dl dc arrivee c UNIV (remove1 (f, c) H) G"
    unfolding inv_front_def
  proof (intro allI impI)
    fix v x assume gv: "G v = Some x"
    from fr gv consider (tas) "(x + heuristique v arrivee, v) \<in> set H"
      | (clos) "v \<noteq> arrivee" "\<forall>w'. arete g dl dc v w' \<longrightarrow>
                  (\<exists>y. G w' = Some y \<and> y \<le> x + 1)"
      unfolding inv_front_def by blast
    then show "(x + heuristique v arrivee, v) \<in> set (remove1 (f, c) H)
        \<or> (v \<noteq> arrivee
            \<and> (\<forall>w. arete g dl dc v w \<longrightarrow>
                  (v = c \<and> w \<in> UNIV) \<or> (\<exists>y. G w = Some y \<and> y \<le> x + 1)))"
    proof cases
      case tas
      show ?thesis
      proof (cases "v = c")
        case True then show ?thesis using ca by simp
      next
        case False
        then have "(x + heuristique v arrivee, v) \<noteq> (f, c)" by simp
        then have "(x + heuristique v arrivee, v) \<in> set (remove1 (f, c) H)"
          using tas by simp
        then show ?thesis by simp
      qed
    next
      case clos then show ?thesis by blast
    qed
  qed
  show "inv_rech g dl dc depart arrivee c UNIV (remove1 (f, c) H, P, G)"
    using b t' f' by (simp add: inv_rech_def)
qed

lemma inv_fin_expansion:
  assumes i: "inv_rech g dl dc depart arrivee c (UNIV - voisins c cardinal_directions) (H, P, G)"
  shows "inv_rech g dl dc depart arrivee c' {} (H, P, G)"
proof -
  from i have b: "inv_base g dl dc depart P G" and t: "inv_tas arrivee H G"
    and fr: "inv_front g dl dc arrivee c (UNIV - voisins c cardinal_directions) H G"
    by (simp_all add: inv_rech_def)
  have nv: "w \<in> voisins c cardinal_directions" if "arete g dl dc c w" for w
  proof -
    from that have "mouvement_legal dl dc c w" by (simp add: arete_def)
    from mouvement_legal_cardinal [OF this] show ?thesis
      unfolding voisins_def by blast
  qed
  have f': "inv_front g dl dc arrivee c' {} H G"
    unfolding inv_front_def
  proof (intro allI impI)
    fix v x assume gv: "G v = Some x"
    from fr gv consider (tas) "(x + heuristique v arrivee, v) \<in> set H"
      | (clos) "v \<noteq> arrivee" "\<forall>w'. arete g dl dc v w' \<longrightarrow>
                  (v = c \<and> w' \<in> UNIV - voisins c cardinal_directions)
                  \<or> (\<exists>y. G w' = Some y \<and> y \<le> x + 1)"
      unfolding inv_front_def by blast
    then show "(x + heuristique v arrivee, v) \<in> set H
        \<or> (v \<noteq> arrivee
            \<and> (\<forall>w. arete g dl dc v w \<longrightarrow>
                  (v = c' \<and> w \<in> {}) \<or> (\<exists>y. G w = Some y \<and> y \<le> x + 1)))"
    proof cases
      case tas then show ?thesis by simp
    next
      case clos
      have "\<exists>y. G w = Some y \<and> y \<le> x + 1" if a: "arete g dl dc v w" for w
      proof -
        from clos(2) a have "(v = c \<and> w \<in> UNIV - voisins c cardinal_directions)
                  \<or> (\<exists>y. G w = Some y \<and> y \<le> x + 1)" by blast
        then show ?thesis using nv a by blast
      qed
      then show ?thesis using clos(1) by blast
    qed
  qed
  show ?thesis using b t f' by (simp add: inv_rech_def)
qed

lemma reconstruire_Some:
  "reconstruire P (Some v) acc = reconstruire P (P v) (acc @ [v])"
  by (subst reconstruire.simps) simp

lemma reconstruire_None: "reconstruire P None acc = Some acc"
  by (subst reconstruire.simps) simp

lemma reconstruire_ok:
  assumes b: "inv_base g dl dc depart P G"
  shows "G v = Some x \<Longrightarrow>
         \<exists>ch. reconstruire P (Some v) acc = Some (acc @ ch) \<and> ch \<noteq> [] \<and> hd ch = v
              \<and> last ch = depart \<and> successively (\<lambda>a b. arete g dl dc b a) ch
              \<and> list_all (est_route g) ch \<and> int (length ch) \<le> x + 1"
proof (induction "nat x" arbitrary: v x acc rule: less_induct)
  case less
  from b have d0: "G depart = Some 0" and p0: "P depart = None"
    and pos: "\<And>v x. G v = Some x \<Longrightarrow> 0 \<le> x \<and> est_route g v"
    and pre: "\<And>v x. G v = Some x \<Longrightarrow> v \<noteq> depart \<Longrightarrow>
           \<exists>u y. P v = Some u \<and> G u = Some y \<and> arete g dl dc u v \<and> y + 1 \<le> x"
    unfolding inv_base_def by blast+
  have x0: "0 \<le> x" and rv: "est_route g v" using pos [OF less.prems] by simp_all
  show ?case
  proof (cases "v = depart")
    case True
    have "reconstruire P (Some v) acc = Some (acc @ [v])"
      using True p0 by (simp add: reconstruire_Some reconstruire_None)
    then show ?thesis using True rv x0 by simp
  next
    case False
    from pre [OF less.prems False] obtain u y where
      u: "P v = Some u" "G u = Some y" "arete g dl dc u v" "y + 1 \<le> x" by blast
    have y0: "0 \<le> y" using pos [OF u(2)] by simp
    have "nat y < nat x" using y0 u(4) by linarith
    from less.hyps [OF this u(2), of "acc @ [v]"] obtain ch where
      ch: "reconstruire P (Some u) (acc @ [v]) = Some ((acc @ [v]) @ ch)" "ch \<noteq> []" "hd ch = u"
        "last ch = depart" "successively (\<lambda>a b. arete g dl dc b a) ch"
        "list_all (est_route g) ch" "int (length ch) \<le> y + 1"
      by blast
    have "reconstruire P (Some v) acc = Some (acc @ (v # ch))"
      using ch(1) u(1) by (simp add: reconstruire_Some)
    moreover have "successively (\<lambda>a b. arete g dl dc b a) (v # ch)"
      using ch(2,3,5) u(3) by (simp add: successively_Cons)
    moreover have "int (length (v # ch)) \<le> x + 1" using ch(7) u(4) by simp
    ultimately show ?thesis using ch(2,4,6) rv by auto
  qed
qed

lemma heuristique_pas:
  assumes "mouvement_legal dl dc a b"
  shows "heuristique a t \<le> heuristique b t + 1"
proof -
  from assms have "(snd b = snd a \<and> (fst b = fst a + 1 \<or> fst b = fst a - 1))
                 \<or> (fst b = fst a \<and> (snd b = snd a + 1 \<or> snd b = snd a - 1))"
    unfolding mouvement_legal_def by blast
  then show ?thesis unfolding heuristique_def by (elim disjE conjE) simp_all
qed

lemma heuristique_chemin:
  "successively (mouvement_legal dl dc) (x # xs) \<Longrightarrow>
   heuristique x (last (x # xs)) \<le> int (length xs)"
proof (induction xs arbitrary: x)
  case Nil
  then show ?case by (simp add: heuristique_def)
next
  case (Cons y ys)
  then have m: "mouvement_legal dl dc x y" and s: "successively (mouvement_legal dl dc) (y # ys)"
    by (simp_all add: successively_Cons)
  have "heuristique x (last (y # ys)) \<le> heuristique y (last (y # ys)) + 1"
    by (rule heuristique_pas [OF m])
  also have "\<dots> \<le> int (length ys) + 1" using Cons.IH [OF s] by simp
  finally show ?case by simp
qed

lemma heuristique_admissible:
  assumes s: "successively (mouvement_legal dl dc) q" and j: "j < length q"
  shows "heuristique (q ! j) (last q) \<le> int (length q - 1 - j)"
proof -
  have q: "q = take j q @ drop j q" by simp
  have d: "drop j q = (q ! j) # drop (Suc j) q" using j by (simp add: Cons_nth_drop_Suc)
  have "successively (mouvement_legal dl dc) (take j q @ drop j q)" using s by simp
  then have "successively (mouvement_legal dl dc) (drop j q)"
    unfolding successively_append_iff by blast
  then have "heuristique (q ! j) (last ((q ! j) # drop (Suc j) q))
             \<le> int (length (drop (Suc j) q))"
    unfolding d by (rule heuristique_chemin)
  moreover have "last ((q ! j) # drop (Suc j) q) = last q"
    using j d by (metis last_drop)
  ultimately show ?thesis by simp
qed

lemma itineraire_arete:
  assumes "itineraire g dl dc depart arrivee q" and "Suc i < length q"
  shows "arete g dl dc (q ! i) (q ! Suc i)"
proof -
  from assms(1) have s: "successively (mouvement_legal dl dc) q"
    and r: "list_all (est_route g) q" by (simp_all add: itineraire_def)
  have "mouvement_legal dl dc (q ! i) (q ! Suc i)"
    by (rule successively_nth [OF s assms(2)])
  moreover have "est_route g (q ! Suc i)"
    using r assms(2) by (simp add: list_all_length)
  ultimately show ?thesis by (simp add: arete_def)
qed

lemma front_itineraire:
  assumes i: "inv_rech g dl dc depart arrivee c0 {} (H, P, G)"
    and q: "itineraire g dl dc depart arrivee q"
  shows "i < length q \<Longrightarrow>
         (\<exists>x. G (q ! i) = Some x \<and> x \<le> int i)
         \<or> (\<exists>j \<le> i. \<exists>x. G (q ! j) = Some x \<and> x \<le> int j
                \<and> (x + heuristique (q ! j) arrivee, q ! j) \<in> set H)"
proof (induction i)
  case 0
  from i have "G depart = Some 0" by (simp add: inv_rech_def inv_base_def)
  moreover have "q ! 0 = depart" using q by (cases q) (simp_all add: itineraire_def)
  ultimately show ?case by simp
next
  case (Suc i)
  then have il: "i < length q" by simp
  from i have fr: "inv_front g dl dc arrivee c0 {} H G" by (simp add: inv_rech_def)
  from Suc.IH [OF il] show ?case
  proof
    assume "\<exists>x. G (q ! i) = Some x \<and> x \<le> int i"
    then obtain x where x: "G (q ! i) = Some x" "x \<le> int i" by blast
    from fr x(1) consider (tas) "(x + heuristique (q ! i) arrivee, q ! i) \<in> set H"
      | (clos) "\<forall>w. arete g dl dc (q ! i) w \<longrightarrow> (\<exists>y. G w = Some y \<and> y \<le> x + 1)"
      unfolding inv_front_def by blast
    then show ?thesis
    proof cases
      case tas
      then have "\<exists>j \<le> Suc i. \<exists>x. G (q ! j) = Some x \<and> x \<le> int j
                \<and> (x + heuristique (q ! j) arrivee, q ! j) \<in> set H"
        using x by (intro exI [of _ i]) auto
      then show ?thesis by blast
    next
      case clos
      have "arete g dl dc (q ! i) (q ! Suc i)"
        by (rule itineraire_arete [OF q Suc.prems])
      with clos obtain y where "G (q ! Suc i) = Some y" "y \<le> x + 1" by blast
      then show ?thesis using x(2) by auto
    qed
  next
    assume "\<exists>j \<le> i. \<exists>x. G (q ! j) = Some x \<and> x \<le> int j
                \<and> (x + heuristique (q ! j) arrivee, q ! j) \<in> set H"
    then obtain j x where "j \<le> i" "G (q ! j) = Some x" "x \<le> int j"
      "(x + heuristique (q ! j) arrivee, q ! j) \<in> set H" by blast
    then have "\<exists>j \<le> Suc i. \<exists>x. G (q ! j) = Some x \<and> x \<le> int j
                \<and> (x + heuristique (q ! j) arrivee, q ! j) \<in> set H"
      by (intro exI [of _ j]) auto
    then show ?thesis by blast
  qed
qed

text \<open>When the goal is popped, its cost is at most the number of moves of any route.\<close>

lemma cout_arrivee_minimal:
  assumes i: "inv_rech g dl dc depart arrivee c0 {} (H, P, G)"
    and q: "itineraire g dl dc depart arrivee q"
    and m: "(f, arrivee) \<in> set H" and mn: "\<forall>e \<in> set H. (f, arrivee) \<le> e"
    and ga: "G arrivee = Some x"
  shows "x + 1 \<le> int (length q)"
proof -
  from q have qn: "q \<noteq> []" and lq: "last q = arrivee"
    and sq: "successively (mouvement_legal dl dc) q" by (simp_all add: itineraire_def)
  let ?k = "length q - 1"
  have kl: "?k < length q" using qn by simp
  have qk: "q ! ?k = arrivee" using qn lq by (simp add: last_conv_nth)
  from i have t: "inv_tas arrivee H G" by (simp add: inv_rech_def)
  from t m ga have xf: "x \<le> f"
    unfolding inv_tas_def by (fastforce simp: heuristique_def)
  from front_itineraire [OF i q kl] show ?thesis
  proof
    assume "\<exists>x. G (q ! ?k) = Some x \<and> x \<le> int ?k"
    then have "x \<le> int ?k" using qk ga by simp
    then show ?thesis using qn by (cases q) simp_all
  next
    assume "\<exists>j \<le> ?k. \<exists>x. G (q ! j) = Some x \<and> x \<le> int j
                \<and> (x + heuristique (q ! j) arrivee, q ! j) \<in> set H"
    then obtain j xj where j: "j \<le> ?k" "G (q ! j) = Some xj" "xj \<le> int j"
      "(xj + heuristique (q ! j) arrivee, q ! j) \<in> set H" by blast
    from mn j(4) have "(f, arrivee) \<le> (xj + heuristique (q ! j) arrivee, q ! j)" by blast
    then have "f \<le> xj + heuristique (q ! j) arrivee"
      by (auto simp: less_eq_prod_def)
    moreover have "heuristique (q ! j) arrivee \<le> int (?k - j)"
      using heuristique_admissible [OF sq, of j] j(1) kl lq by simp
    ultimately have "f \<le> int ?k" using j(1,3) by linarith
    then have "x \<le> int ?k" using xf by simp
    then show ?thesis using qn by (cases q) simp_all
  qed
qed

lemma pas_de_route_si_vide:
  assumes i: "inv_rech g dl dc depart arrivee c0 {} ([], P, G)"
  shows "\<not> itineraire g dl dc depart arrivee q"
proof
  assume q: "itineraire g dl dc depart arrivee q"
  then have qn: "q \<noteq> []" and lq: "last q = arrivee" by (simp_all add: itineraire_def)
  have kl: "length q - 1 < length q" using qn by simp
  have qk: "q ! (length q - 1) = arrivee" using qn lq by (simp add: last_conv_nth)
  from front_itineraire [OF i q kl] obtain x where "G arrivee = Some x"
    using qk by auto
  moreover from i have "inv_front g dl dc arrivee c0 {} [] G" by (simp add: inv_rech_def)
  ultimately show False unfolding inv_front_def by fastforce
qed

lemma wf_ordre_rech: "wf (ordre_rech g)"
  unfolding ordre_rech_def by (intro wf_inv_image wf_lex_prod wf_less_than)

lemma chemin_reconstruit:
  assumes i: "inv_rech g dl dc depart arrivee c0 {} (H, P, G)"
    and m: "(f, arrivee) \<in> set H" and mn: "\<forall>e \<in> set H. (f, arrivee) \<le> e"
  shows "\<exists>ch. reconstruire P (Some arrivee) [] = Some ch
            \<and> resultat_correct g dl dc depart arrivee (Some (rev ch))"
proof -
  from i have b: "inv_base g dl dc depart P G" and t: "inv_tas arrivee H G"
    by (simp_all add: inv_rech_def)
  from t m obtain x where ga: "G arrivee = Some x" unfolding inv_tas_def by blast
  from reconstruire_ok [OF b ga, of "[]"] obtain ch where
    ch: "reconstruire P (Some arrivee) [] = Some ch" "ch \<noteq> []" "hd ch = arrivee"
      "last ch = depart" "successively (\<lambda>a b. arete g dl dc b a) ch"
      "list_all (est_route g) ch" "int (length ch) \<le> x + 1"
    by auto
  have "successively (arete g dl dc) (rev ch)" using ch(5) by simp
  then have s: "successively (mouvement_legal dl dc) (rev ch)"
    by (rule successively_mono) (simp_all add: arete_def)
  have it: "itineraire g dl dc depart arrivee (rev ch)"
    unfolding itineraire_def using ch(2,3,4,6) s
    by (simp add: hd_rev last_rev)
  have "length (rev ch) \<le> length q" if q: "itineraire g dl dc depart arrivee q" for q
    using cout_arrivee_minimal [OF i q m mn ga] ch(7) by simp
  then show ?thesis using ch(1) it by (simp add: resultat_correct_def)
qed

lemma boucle_correcte:
  assumes v: "grille_valide g"
  shows "inv_rech g dl dc depart arrivee depart {} s \<Longrightarrow>
         \<exists>r. boucle_recherche g (int (length (hd g))) (int (length g)) dl dc arrivee s
                = Some (Inr r)
            \<and> resultat_correct g dl dc depart arrivee r"
proof (induction s rule: wf_induct_rule [OF wf_ordre_rech [of g]])
  case (1 s)
  obtain H P G where s: "s = (H, P, G)" by (cases s)
  note i = "1.prems" [unfolded s]
  show ?case
  proof (cases "H = []")
    case True
    have "boucle_recherche g (int (length (hd g))) (int (length g)) dl dc arrivee s
          = Some (Inr None)"
      unfolding s using True by (subst boucle_recherche.simps) simp
    moreover have "resultat_correct g dl dc depart arrivee None"
      using pas_de_route_si_vide [OF i [unfolded True]] by (simp add: resultat_correct_def)
    ultimately show ?thesis by blast
  next
    case False
    obtain f c H' where hp: "heappop H = ((f, c), H')"
      by (cases "heappop H") auto
    note pp = heappop_proprietes [OF False hp]
    show ?thesis
    proof (cases "c = arrivee")
      case True
      from chemin_reconstruit [OF i pp(1) [unfolded True] pp(2) [unfolded True]]
      obtain ch where ch: "reconstruire P (Some arrivee) [] = Some ch"
        "resultat_correct g dl dc depart arrivee (Some (rev ch))" by blast
      have "boucle_recherche g (int (length (hd g))) (int (length g)) dl dc arrivee s
            = Some (Inr (Some (rev ch)))"
        unfolding s using False hp True ch(1)
        by (subst boucle_recherche.simps) simp
      then show ?thesis using ch(2) by blast
    next
      case ca: False
      from inv_apres_pop [OF i pp(1) ca] obtain gc where
        i1: "inv_rech g dl dc depart arrivee c UNIV (remove1 (f, c) H, P, G)"
        and gc: "G c = Some gc" by blast
      from explorer_voisins_inv [OF v subset_refl i1 gc] obtain H2 P2 G2 where
        e: "explorer_voisins g (int (length (hd g))) (int (length g)) dl dc arrivee c
              cardinal_directions (remove1 (f, c) H, P, G) = Inr (H2, P2, G2)"
        and i2: "inv_rech g dl dc depart arrivee c (UNIV - voisins c cardinal_directions)
                   (H2, P2, G2)"
        and m2: "(H2, P2, G2) = (remove1 (f, c) H, P, G)
                 \<or> (mes12 g G2, mes12 g G) \<in> less_than <*lex*> less_than"
        by blast
      have i3: "inv_rech g dl dc depart arrivee depart {} (H2, P2, G2)"
        by (rule inv_fin_expansion [OF i2])
      have lt: "((H2, P2, G2), s) \<in> ordre_rech g"
      proof -
        from m2 show ?thesis
        proof
          assume eq: "(H2, P2, G2) = (remove1 (f, c) H, P, G)"
          have "0 < length H" using False by simp
          then have "length (remove1 (f, c) H) < length H"
            using pp(1) by (simp add: length_remove1)
          then show ?thesis
            using eq by (simp add: ordre_rech_def mes_rech_def s)
        next
          assume "(mes12 g G2, mes12 g G) \<in> less_than <*lex*> less_than"
          then show ?thesis
            by (simp add: ordre_rech_def mes_rech_def s)
        qed
      qed
      from "1.IH" [OF lt i3] obtain r where
        r: "boucle_recherche g (int (length (hd g))) (int (length g)) dl dc arrivee (H2, P2, G2)
              = Some (Inr r)"
          "resultat_correct g dl dc depart arrivee r" by blast
      have "boucle_recherche g (int (length (hd g))) (int (length g)) dl dc arrivee s
            = boucle_recherche g (int (length (hd g))) (int (length g)) dl dc arrivee (H2, P2, G2)"
        unfolding s using False hp ca pp(3) e
        by (subst boucle_recherche.simps) simp
      then show ?thesis using r by simp
    qed
  qed
qed

lemma inv_initial:
  assumes "est_route g depart"
  shows "inv_rech g dl dc depart arrivee depart {}
           ([(heuristique depart arrivee, depart)], Map.empty, [depart \<mapsto> 0])"
proof -
  have "inv_base g dl dc depart Map.empty [depart \<mapsto> 0]"
    using assms by (simp add: inv_base_def)
  moreover have "inv_tas arrivee [(heuristique depart arrivee, depart)] [depart \<mapsto> 0]"
    by (simp add: inv_tas_def)
  moreover have "inv_front g dl dc arrivee depart {} [(heuristique depart arrivee, depart)]
                   [depart \<mapsto> 0]"
    by (simp add: inv_front_def)
  ultimately show ?thesis by (simp add: inv_rech_def)
qed

lemma trouver_chemin_cas:
  assumes v: "grille_valide g"
  shows "trouver_chemin g depart arrivee dl dc =
           (if \<not> est_route g depart \<or> \<not> est_route g arrivee then Some (Inr None)
            else if depart = arrivee then Some (Inr (Some [depart]))
            else boucle_recherche g (int (length (hd g))) (int (length g)) dl dc arrivee
                   ([(heuristique depart arrivee, depart)], Map.empty, [depart \<mapsto> 0]))"
proof -
  note l = grille_valide_largeur [OF v]
  note dg = grille_valide_dans [OF v]
  show ?thesis
  proof (cases "dans_grille g (fst depart) (snd depart) \<and> dans_grille g (fst arrivee) (snd arrivee)")
    case False
    then have "\<not> est_route g depart \<or> \<not> est_route g arrivee" by (auto simp: est_route_def)
    moreover have "trouver_chemin g depart arrivee dl dc = Some (Inr None)"
      unfolding trouver_chemin_def l using False dg by (simp add: Let_def)
    ultimately show ?thesis by simp
  next
    case True
    then have dd: "dans_grille g (fst depart) (snd depart)"
      and da: "dans_grille g (fst arrivee) (snd arrivee)" by simp_all
    have b: "0 \<le> fst depart \<and> fst depart < int (length (hd g)) \<and> 0 \<le> snd depart
             \<and> snd depart < int (length g) \<and> 0 \<le> fst arrivee \<and> fst arrivee < int (length (hd g))
             \<and> 0 \<le> snd arrivee \<and> snd arrivee < int (length g)"
      using dd da dg by simp
    have rd: "est_route g depart \<longleftrightarrow> g ! nat (snd depart) ! nat (fst depart) = ROUTE"
      and ra: "est_route g arrivee \<longleftrightarrow> g ! nat (snd arrivee) ! nat (fst arrivee) = ROUTE"
      using dd da by (simp_all add: est_route_def)
    show ?thesis
      unfolding trouver_chemin_def l using b rd ra
      by (simp add: Let_def cellule_dans [OF dd] cellule_dans [OF da])
  qed
qed

lemma trouver_chemin_correct:
  assumes v: "grille_valide g"
  shows "\<exists>r. trouver_chemin g depart arrivee dl dc = Some (Inr r)
            \<and> resultat_correct g dl dc depart arrivee r"
proof (cases "\<not> est_route g depart \<or> \<not> est_route g arrivee")
  case True
  have "\<not> itineraire g dl dc depart arrivee q" for q
  proof
    assume q: "itineraire g dl dc depart arrivee q"
    then have "q \<noteq> []" "hd q = depart" "last q = arrivee" "\<forall>c \<in> set q. est_route g c"
      by (simp_all add: itineraire_def list_all_iff)
    then have "est_route g depart \<and> est_route g arrivee"
      using hd_in_set last_in_set by blast
    with True show False by simp
  qed
  then show ?thesis
    using True by (simp add: trouver_chemin_cas [OF v] resultat_correct_def)
next
  case False
  then have rd: "est_route g depart" by simp
  show ?thesis
  proof (cases "depart = arrivee")
    case True
    have "itineraire g dl dc depart arrivee [depart]"
      using rd True by (simp add: itineraire_def)
    moreover have "length [depart] \<le> length q" if "itineraire g dl dc depart arrivee q" for q
      using that by (cases q) (simp_all add: itineraire_def)
    ultimately show ?thesis
      using False True by (simp add: trouver_chemin_cas [OF v] resultat_correct_def)
  next
    case ne: False
    from boucle_correcte [OF v inv_initial [OF rd]] show ?thesis
      using False ne by (simp add: trouver_chemin_cas [OF v])
  qed
qed

text \<open>
  Claim C3. On a grid (at least one row, all rows of the same length)
  \<^verbatim>\<open>trouver_chemin\<close> always returns; it returns a path exactly when a route exists
  from \<open>depart\<close> to \<open>arrivee\<close> through ROUTE cells by orthogonal unit moves that the
  direction of the row or column allows; and a returned path is such a route whose
  number of moves, its length minus 1, is at most that of every route.
\<close>

theorem C3_planificateur:
  assumes "grille_valide g"
  shows "(\<exists>r. trouver_chemin g depart arrivee dl dc = Some (Inr r))
       \<and> ((\<exists>p. trouver_chemin g depart arrivee dl dc = Some (Inr (Some p)))
            \<longleftrightarrow> (\<exists>q. itineraire g dl dc depart arrivee q))
       \<and> (\<forall>p. trouver_chemin g depart arrivee dl dc = Some (Inr (Some p)) \<longrightarrow>
              itineraire g dl dc depart arrivee p
              \<and> (\<forall>q. itineraire g dl dc depart arrivee q \<longrightarrow> length p - 1 \<le> length q - 1))"
proof -
  from trouver_chemin_correct [OF assms] obtain r where
    r: "trouver_chemin g depart arrivee dl dc = Some (Inr r)"
      "resultat_correct g dl dc depart arrivee r" by blast
  show ?thesis
  proof (cases r)
    case None
    then show ?thesis using r by (simp add: resultat_correct_def)
  next
    case (Some p)
    then have "itineraire g dl dc depart arrivee p"
      and "\<forall>q. itineraire g dl dc depart arrivee q \<longrightarrow> length p \<le> length q"
      using r(2) by (simp_all add: resultat_correct_def)
    then show ?thesis using r(1) Some by (auto intro: diff_le_mono)
  qed
qed

theorem C3_planificateur_witness:
  "grille_valide [''NN NN'', ''NN NN'', ''     '', ''NN NN'', ''NN NN'']
   \<and> trouver_chemin [''NN NN'', ''NN NN'', ''     '', ''NN NN'', ''NN NN''] (0, 2) (2, 4)
       [2 \<mapsto> ''droite''] [2 \<mapsto> ''bas'']
     = Some (Inr (Some [(0, 2), (1, 2), (2, 2), (2, 3), (2, 4)]))
   \<and> itineraire [''NN NN'', ''NN NN'', ''     '', ''NN NN'', ''NN NN'']
       [2 \<mapsto> ''droite''] [2 \<mapsto> ''bas''] (0, 2) (2, 4)
       [(0, 2), (1, 2), (2, 2), (2, 3), (2, 4)]"
proof -
  have v: "grille_valide [''NN NN'', ''NN NN'', ''     '', ''NN NN'', ''NN NN'']"
    unfolding grille_valide_def by simp
  have e: "trouver_chemin [''NN NN'', ''NN NN'', ''     '', ''NN NN'', ''NN NN''] (0, 2) (2, 4)
       [2 \<mapsto> ''droite''] [2 \<mapsto> ''bas'']
     = Some (Inr (Some [(0, 2), (1, 2), (2, 2), (2, 3), (2, 4)]))"
    by code_simp
  from C3_planificateur [OF v, of "(0, 2)" "(2, 4)" "[2 \<mapsto> ''droite'']" "[2 \<mapsto> ''bas'']"]
  have "itineraire [''NN NN'', ''NN NN'', ''     '', ''NN NN'', ''NN NN'']
       [2 \<mapsto> ''droite''] [2 \<mapsto> ''bas''] (0, 2) (2, 4)
       [(0, 2), (1, 2), (2, 2), (2, 3), (2, 4)]"
    using e by blast
  with v e show ?thesis by blast
qed

text \<open>
  Claim C9. On a grid, a path returned by \<^verbatim>\<open>trouver_chemin\<close> is the sequence of
  cells from \<open>depart\<close> to \<open>arrivee\<close>, both included, each next cell one legal move
  away; the function returns None whenever \<open>depart\<close> or \<open>arrivee\<close> is outside the grid
  or is not a ROUTE cell (an obstacle cell is not ROUTE); and when \<open>depart\<close> equals
  \<open>arrivee\<close> and the cell is a ROUTE cell of the grid, it returns the one-cell path.
\<close>

theorem C9_limites_planificateur:
  assumes "grille_valide g"
  shows "(\<forall>p. trouver_chemin g depart arrivee dl dc = Some (Inr (Some p)) \<longrightarrow>
            p \<noteq> [] \<and> hd p = depart \<and> last p = arrivee
            \<and> successively (mouvement_legal dl dc) p)
       \<and> (\<not> est_route g depart \<or> \<not> est_route g arrivee \<longrightarrow>
            trouver_chemin g depart arrivee dl dc = Some (Inr None))
       \<and> (est_route g depart \<and> depart = arrivee \<longrightarrow>
            trouver_chemin g depart arrivee dl dc = Some (Inr (Some [depart])))"
proof -
  have a: "p \<noteq> [] \<and> hd p = depart \<and> last p = arrivee \<and> successively (mouvement_legal dl dc) p"
    if "trouver_chemin g depart arrivee dl dc = Some (Inr (Some p))" for p
    using trouver_chemin_correct [OF assms, of depart arrivee dl dc] that
    by (auto simp: resultat_correct_def itineraire_def)
  have b: "trouver_chemin g depart arrivee dl dc = Some (Inr None)"
    if "\<not> est_route g depart \<or> \<not> est_route g arrivee"
    using that by (simp add: trouver_chemin_cas [OF assms])
  have c: "trouver_chemin g depart arrivee dl dc = Some (Inr (Some [depart]))"
    if "est_route g depart \<and> depart = arrivee"
  proof -
    from that have "est_route g depart" "est_route g arrivee" "depart = arrivee" by auto
    then show ?thesis by (simp add: trouver_chemin_cas [OF assms])
  qed
  show ?thesis
    using a b c by blast
qed

theorem C9_limites_planificateur_witness:
  "grille_valide [''  X  '']
   \<and> trouver_chemin [''  X  ''] (0, 0) (1, 0) [0 \<mapsto> ''droite''] Map.empty
       = Some (Inr (Some [(0, 0), (1, 0)]))
   \<and> trouver_chemin [''  X  ''] (0, 0) (2, 0) [0 \<mapsto> ''droite''] Map.empty = Some (Inr None)
   \<and> trouver_chemin [''  X  ''] (0, 0) (5, 0) [0 \<mapsto> ''droite''] Map.empty = Some (Inr None)
   \<and> trouver_chemin [''  X  ''] (1, 0) (1, 0) [0 \<mapsto> ''droite''] Map.empty
       = Some (Inr (Some [(1, 0)]))"
proof -
  have v: "grille_valide [''  X  '']" unfolding grille_valide_def by simp
  have e: "trouver_chemin [''  X  ''] (0, 0) (1, 0) [0 \<mapsto> ''droite''] Map.empty
       = Some (Inr (Some [(0, 0), (1, 0)]))"
    by code_simp
  have r: "est_route [''  X  ''] (1, 0)" "\<not> est_route [''  X  ''] (2, 0)"
    "\<not> est_route [''  X  ''] (5, 0)"
    by (simp_all add: est_route_def dans_grille_def ROUTE_def)
  show ?thesis
    using v e r
      C9_limites_planificateur [OF v, of "(0, 0)" "(2, 0)" "[0 \<mapsto> ''droite'']" Map.empty]
      C9_limites_planificateur [OF v, of "(0, 0)" "(5, 0)" "[0 \<mapsto> ''droite'']" Map.empty]
      C9_limites_planificateur [OF v, of "(1, 0)" "(1, 0)" "[0 \<mapsto> ''droite'']" Map.empty]
    by simp
qed

section \<open>One call of the car update\<close>

lemma est_deplacement_valide_total:
  assumes "grille_valide g"
  shows "\<exists>b. est_deplacement_valide pos feux pietons g = Inr b"
proof (cases "dans_grille g (fst pos) (snd pos)")
  case True
  then have b: "0 \<le> fst pos \<and> fst pos < int (length (hd g)) \<and> 0 \<le> snd pos
                \<and> snd pos < int (length g)"
    using grille_valide_dans [OF assms] by simp
  show ?thesis
    unfolding est_deplacement_valide_def grille_valide_largeur [OF assms]
    using b by (auto simp: Let_def cellule_dans [OF True])
next
  case False
  then have b: "\<not> (0 \<le> fst pos \<and> fst pos < int (length (hd g)) \<and> 0 \<le> snd pos
                \<and> snd pos < int (length g))"
    using grille_valide_dans [OF assms] by simp
  show ?thesis
    unfolding est_deplacement_valide_def grille_valide_largeur [OF assms]
    using b by (auto simp: Let_def)
qed

lemma cellule_Inr_dans:
  assumes "cellule g x y = Inr c" and "0 \<le> x" and "0 \<le> y"
  shows "dans_grille g x y \<and> g ! nat y ! nat x = c"
proof -
  from assms(1) obtain j i where j: "indice (length g) y = Inr j"
    and i: "indice (length (g ! j)) x = Inr i" and c: "c = g ! j ! i"
    by (auto simp: cellule_def split: sum.splits)
  from j assms(3) have jy: "j = nat y" "y < int (length g)"
    by (auto simp: indice_def Let_def split: if_splits)
  from i assms(2) have ix: "i = nat x" "x < int (length (g ! j))"
    by (auto simp: indice_def Let_def split: if_splits)
  show ?thesis using jy ix c assms(2,3) by (simp add: dans_grille_def)
qed

lemma est_deplacement_valide_vrai:
  assumes "est_deplacement_valide pos feux pietons g = Inr True"
  shows "est_route g pos"
    and "\<not> (\<exists>f \<in> set feux. position_feu f = pos \<and> etat f \<noteq> ''vert'')"
    and "\<not> (\<exists>p \<in> set pietons. passage_pos p = pos \<and> progres p < 1)"
proof -
  from assms obtain tx where l: "largeur g = Inr tx"
    by (cases "largeur g") (simp_all add: est_deplacement_valide_def)
  have b: "0 \<le> fst pos \<and> fst pos < tx \<and> 0 \<le> snd pos \<and> snd pos < int (length g)"
    using assms unfolding est_deplacement_valide_def l
    by (simp add: Let_def split: if_splits)
  from assms b obtain c where c: "cellule g (fst pos) (snd pos) = Inr c"
    unfolding est_deplacement_valide_def l
    by (cases "cellule g (fst pos) (snd pos)") (simp_all add: Let_def)
  have r: "c = ROUTE"
    and f: "\<not> (\<exists>f \<in> set feux. position_feu f = pos \<and> etat f \<noteq> ''vert'')"
    and p: "\<not> (\<exists>p \<in> set pietons. passage_pos p = pos \<and> progres p < 1)"
    using assms b c unfolding est_deplacement_valide_def l
    by (simp_all add: Let_def split: if_splits)
  from cellule_Inr_dans [OF c] b r show "est_route g pos" by (simp add: est_route_def)
  show "\<not> (\<exists>f \<in> set feux. position_feu f = pos \<and> etat f \<noteq> ''vert'')" by (rule f)
  show "\<not> (\<exists>p \<in> set pietons. passage_pos p = pos \<and> progres p < 1)" by (rule p)
qed

lemma sans_blocage_maj:
  "map sans_blocage (vs[i := (vs ! i)\<lparr>bloquee_depuis := None\<rparr>]) = map sans_blocage vs"
proof (cases "i < length vs")
  case True
  have "map sans_blocage (vs[i := (vs ! i)\<lparr>bloquee_depuis := None\<rparr>])
        = (map sans_blocage vs)[i := sans_blocage ((vs ! i)\<lparr>bloquee_depuis := None\<rparr>)]"
    by (rule map_update)
  also have "sans_blocage ((vs ! i)\<lparr>bloquee_depuis := None\<rparr>) = map sans_blocage vs ! i"
    using True by (simp add: sans_blocage_def)
  finally show ?thesis by simp
next
  case False
  then have "length vs \<le> i" by linarith
  then have "vs[i := (vs ! i)\<lparr>bloquee_depuis := None\<rparr>] = vs"
    by (rule list_update_beyond)
  then show ?thesis by (simp only:)
qed

lemma chemin_maj:
  "chemin (vs[i := (vs ! i)\<lparr>bloquee_depuis := None\<rparr>] ! j) = chemin (vs ! j)"
proof (cases "i < length vs")
  case True
  then show ?thesis by (cases "j = i") simp_all
next
  case False
  then have "length vs \<le> i" by linarith
  then have "vs[i := (vs ! i)\<lparr>bloquee_depuis := None\<rparr>] = vs"
    by (rule list_update_beyond)
  then show ?thesis by (simp only:)
qed

lemma resoudre_mouvements_total:
  assumes v: "grille_valide g"
  shows "\<forall>i \<in> set ordre. chemin (vs ! i) \<noteq> [] \<Longrightarrow>
         \<exists>s'. resoudre_mouvements feux pietons g ordre (proj, appr, vs) = Inr s'"
proof (induction ordre arbitrary: proj appr vs)
  case Nil
  then show ?case by simp
next
  case (Cons i ordre)
  then obtain n rest where c: "chemin (vs ! i) = n # rest"
    by (cases "chemin (vs ! i)") auto
  have r: "\<forall>j \<in> set ordre. chemin (vs ! j) \<noteq> []" using Cons.prems by simp
  have r': "\<forall>j \<in> set ordre. chemin (vs[i := (vs ! i)\<lparr>bloquee_depuis := None\<rparr>] ! j) \<noteq> []"
    using r by (simp add: chemin_maj)
  from est_deplacement_valide_total [OF v, of n feux pietons] obtain b where
    b: "est_deplacement_valide n feux pietons g = Inr b" by blast
  show ?case
  proof (cases "n \<notin> proj \<and> b")
    case True
    have "resoudre_mouvements feux pietons g (i # ordre) (proj, appr, vs)
          = resoudre_mouvements feux pietons g ordre
              (insert n proj, appr(id_v (vs ! i) \<mapsto> n),
               vs[i := (vs ! i)\<lparr>bloquee_depuis := None\<rparr>])"
      using True by (simp add: c b)
    then show ?thesis using Cons.IH [OF r'] by simp
  next
    case False
    have "resoudre_mouvements feux pietons g (i # ordre) (proj, appr, vs)
          = resoudre_mouvements feux pietons g ordre (proj, appr, vs)"
      using False by (auto simp: c b)
    then show ?thesis using Cons.IH [OF r] by simp
  qed
qed

lemma resoudre_mouvements_inv:
  "resoudre_mouvements feux pietons g ordre (proj, appr, vs) = Inr (proj', appr', vs') \<Longrightarrow>
   map sans_blocage vs' = map sans_blocage vs \<and> proj \<subseteq> proj'
   \<and> (\<forall>k t. appr' k = Some t \<longrightarrow>
         appr k = Some t \<or> (t \<notin> proj \<and> est_deplacement_valide t feux pietons g = Inr True))
   \<and> (ran appr \<subseteq> proj \<longrightarrow> ran appr' \<subseteq> proj')
   \<and> (ran appr \<subseteq> proj \<and> inj_on appr (dom appr) \<longrightarrow> inj_on appr' (dom appr'))"
proof (induction ordre arbitrary: proj appr vs)
  case Nil
  then show ?case by simp
next
  case (Cons i ordre)
  show ?case
  proof (cases "chemin (vs ! i)")
    case Nil
    then show ?thesis using Cons.prems by simp
  next
    case (Cons n rest)
    note c = Cons
    show ?thesis
    proof (cases "n \<notin> proj \<and> est_deplacement_valide n feux pietons g = Inr True")
      case False
      then have "resoudre_mouvements feux pietons g ordre (proj, appr, vs)
                 = Inr (proj', appr', vs')"
        using Cons.prems c
        by (auto split: sum.splits if_splits)
      from Cons.IH [OF this] show ?thesis .
    next
      case True
      then have np: "n \<notin> proj" and ok: "est_deplacement_valide n feux pietons g = Inr True"
        by simp_all
      let ?k = "id_v (vs ! i)"
      let ?vs1 = "vs[i := (vs ! i)\<lparr>bloquee_depuis := None\<rparr>]"
      have "resoudre_mouvements feux pietons g ordre (insert n proj, appr(?k \<mapsto> n), ?vs1)
                 = Inr (proj', appr', vs')"
        using Cons.prems c np ok by simp
      from Cons.IH [OF this] have
        a: "map sans_blocage vs' = map sans_blocage ?vs1"
        and b: "insert n proj \<subseteq> proj'"
        and d: "\<forall>k t. appr' k = Some t \<longrightarrow> (appr(?k \<mapsto> n)) k = Some t
              \<or> (t \<notin> insert n proj \<and> est_deplacement_valide t feux pietons g = Inr True)"
        and e: "ran (appr(?k \<mapsto> n)) \<subseteq> insert n proj \<longrightarrow> ran appr' \<subseteq> proj'"
        and f: "ran (appr(?k \<mapsto> n)) \<subseteq> insert n proj \<and> inj_on (appr(?k \<mapsto> n)) (dom (appr(?k \<mapsto> n)))
              \<longrightarrow> inj_on appr' (dom appr')"
        by blast+
      have a': "map sans_blocage vs' = map sans_blocage vs"
        using a by (simp add: sans_blocage_maj)
      have b': "proj \<subseteq> proj'" using b by blast
      have d': "\<forall>k t. appr' k = Some t \<longrightarrow>
         appr k = Some t \<or> (t \<notin> proj \<and> est_deplacement_valide t feux pietons g = Inr True)"
      proof (intro allI impI)
        fix k t assume "appr' k = Some t"
        with d have "(appr(?k \<mapsto> n)) k = Some t
              \<or> (t \<notin> insert n proj \<and> est_deplacement_valide t feux pietons g = Inr True)"
          by blast
        then show "appr k = Some t
              \<or> (t \<notin> proj \<and> est_deplacement_valide t feux pietons g = Inr True)"
          using np ok by (cases "k = ?k") auto
      qed
      have rn: "ran (appr(?k \<mapsto> n)) \<subseteq> insert n (ran appr)"
        by (auto simp: ran_def split: if_splits)
      have e': "ran appr \<subseteq> proj \<longrightarrow> ran appr' \<subseteq> proj'"
        using e rn by blast
      have inj: "inj_on (appr(?k \<mapsto> n)) (dom (appr(?k \<mapsto> n)))"
        if ra: "ran appr \<subseteq> proj" and ia: "inj_on appr (dom appr)"
      proof (rule inj_onI)
        fix x y assume x: "x \<in> dom (appr(?k \<mapsto> n))" and y: "y \<in> dom (appr(?k \<mapsto> n))"
          and eq: "(appr(?k \<mapsto> n)) x = (appr(?k \<mapsto> n)) y"
        have nn: "appr z \<noteq> Some n" for z
          using ra np by (auto simp: ran_def)
        show "x = y"
        proof (cases "x = ?k")
          case True
          then show ?thesis using eq nn [of y] by (cases "y = ?k") auto
        next
          case False
          note xk = False
          show ?thesis
          proof (cases "y = ?k")
            case True
            then show ?thesis using eq nn [of x] xk by auto
          next
            case False
            then have "appr x = appr y" using eq xk by simp
            moreover have "x \<in> dom appr" "y \<in> dom appr" using x y xk False by auto
            ultimately show ?thesis using ia by (auto dest: inj_onD)
          qed
        qed
      qed
      have f': "ran appr \<subseteq> proj \<and> inj_on appr (dom appr) \<longrightarrow> inj_on appr' (dom appr')"
        using f rn inj by blast
      show ?thesis using a' b' d' e' f' by blast
    qed
  qed
qed

lemma map_filter_meme:
  "map f xs = map f ys \<Longrightarrow> map p xs = map p ys \<Longrightarrow>
   map f (filter (\<lambda>v. P (p v)) xs) = map f (filter (\<lambda>v. P (p v)) ys)"
proof (induction xs arbitrary: ys)
  case Nil
  then show ?case by simp
next
  case (Cons x xs)
  then obtain y ys' where ys: "ys = y # ys'" by (cases ys) auto
  with Cons.prems have "f x = f y" "p x = p y" "map f xs = map f ys'" "map p xs = map p ys'"
    by simp_all
  then show ?case using Cons.IH [of ys'] by (simp add: ys)
qed

lemma adopter_chemin_champs:
  "id_v (adopter_chemin t v p) = id_v v"
  "position (adopter_chemin t v p) = position v"
  "temps_arrivee (adopter_chemin t v p) = temps_arrivee v"
  "destination (adopter_chemin t v p) = destination v"
  "recalcul_echecs (adopter_chemin t v p) = recalcul_echecs v
   \<or> recalcul_echecs (adopter_chemin t v p) = 0"
  by (simp_all add: adopter_chemin_def)

lemma recalculer_chemins_ok:
  assumes v: "grille_valide g"
  shows "\<exists>vs'. recalculer_chemins t g dl dc vs = Some (Inr vs')
           \<and> map id_v vs' = map id_v vs \<and> map position vs' = map position vs
           \<and> map temps_arrivee vs' = map temps_arrivee vs
           \<and> map destination vs' = map destination vs
           \<and> list_all2 (\<lambda>v v'. recalcul_echecs v' = recalcul_echecs v \<or> recalcul_echecs v' = 0)
                vs vs'"
proof (induction vs)
  case Nil
  then show ?case by simp
next
  case (Cons a vs)
  then obtain vs' where r: "recalculer_chemins t g dl dc vs = Some (Inr vs')"
    and m: "map id_v vs' = map id_v vs" "map position vs' = map position vs"
      "map temps_arrivee vs' = map temps_arrivee vs" "map destination vs' = map destination vs"
      "list_all2 (\<lambda>v v'. recalcul_echecs v' = recalcul_echecs v \<or> recalcul_echecs v' = 0) vs vs'"
    by blast
  from trouver_chemin_correct [OF v, of "position a" "destination a" dl dc] obtain p where
    p: "trouver_chemin g (position a) (destination a) dl dc = Some (Inr p)" by blast
  show ?case
  proof (cases "besoin_chemin t a")
    case True
    then have "recalculer_chemins t g dl dc (a # vs) = Some (Inr (adopter_chemin t a p # vs'))"
      by (simp add: p r)
    then show ?thesis using m adopter_chemin_champs [of t a p] by simp
  next
    case False
    then have "recalculer_chemins t g dl dc (a # vs) = Some (Inr (a # vs'))"
      by (simp add: r)
    then show ?thesis using m by simp
  qed
qed

lemma marquer_arrivee_champs:
  "id_v (marquer_arrivee t v) = id_v v"
  "position (marquer_arrivee t v) = position v"
  "destination (marquer_arrivee t v) = destination v"
  "recalcul_echecs (marquer_arrivee t v) = recalcul_echecs v
   \<or> recalcul_echecs (marquer_arrivee t v) = 0"
  "temps_arrivee (marquer_arrivee t v) = None \<Longrightarrow> temps_arrivee v = None"
  by (simp_all add: marquer_arrivee_def split: if_splits)

lemma voitures_restantes_distinct_id:
  assumes "distinct (map id_v vs)"
  shows "distinct (map id_v (voitures_restantes t vs))"
proof -
  let ?Q = "(\<lambda>v. case temps_arrivee v of None \<Rightarrow> True
               | Some t' \<Rightarrow> t - t' < DELAI_DISPARITION_APRES_ARRIVEE) \<circ> marquer_arrivee t"
  have "voitures_restantes t vs = map (marquer_arrivee t) (filter ?Q vs)"
    by (simp add: voitures_restantes_def filter_map)
  then have "map id_v (voitures_restantes t vs) = map id_v (filter ?Q vs)"
    by (simp add: marquer_arrivee_champs o_def)
  then show ?thesis using assms by (simp add: distinct_map_filter)
qed

lemma voitures_restantes_exclusion:
  assumes "distinct (map position (filter (\<lambda>v. temps_arrivee v = None) vs))"
  shows "distinct (map position
           (filter (\<lambda>v. temps_arrivee v = None) (voitures_restantes t vs)))"
proof -
  let ?Q = "(\<lambda>v. case temps_arrivee v of None \<Rightarrow> True
               | Some t' \<Rightarrow> t - t' < DELAI_DISPARITION_APRES_ARRIVEE) \<circ> marquer_arrivee t"
  let ?R = "\<lambda>v. ?Q v \<and> temps_arrivee (marquer_arrivee t v) = None"
  have e: "voitures_restantes t vs = map (marquer_arrivee t) (filter ?Q vs)"
    by (simp add: voitures_restantes_def filter_map)
  have "filter (\<lambda>v. temps_arrivee v = None) (voitures_restantes t vs)
        = map (marquer_arrivee t) (filter ?R vs)"
    unfolding e by (simp add: filter_map o_def conj_commute)
  then have p: "map position (filter (\<lambda>v. temps_arrivee v = None) (voitures_restantes t vs))
        = map position (filter ?R vs)"
    by (simp add: marquer_arrivee_champs o_def)
  have "filter ?R vs = filter ?R (filter (\<lambda>v. temps_arrivee v = None) vs)"
    by (auto intro: filter_cong dest: marquer_arrivee_champs(5))
  then have "map position (filter ?R vs)
             = map position (filter ?R (filter (\<lambda>v. temps_arrivee v = None) vs))"
    by simp
  then show ?thesis unfolding p using assms by (simp only: distinct_map_filter)
qed

lemma voitures_a_resoudre_eligibles:
  assumes "\<forall>xs. mset (melange xs) = mset xs"
    and "i \<in> set (voitures_a_resoudre_mouvement melange t vs)"
  shows "i < length vs \<and> eligible t (vs ! i)"
proof -
  have s: "set (melange xs) = set xs" for xs
    using assms(1) by (metis set_mset_mset)
  from assms(2) have "i \<in> set (filter (\<lambda>i. eligible t (vs ! i)) [0..<length vs])"
    unfolding voitures_a_resoudre_mouvement_def Let_def
    by (auto simp: s)
  then show ?thesis by simp
qed

lemma champs_sans_blocage:
  assumes "map sans_blocage xs = map sans_blocage ys"
  shows "map id_v xs = map id_v ys" "map position xs = map position ys"
    "map temps_arrivee xs = map temps_arrivee ys" "map destination xs = map destination ys"
    "map recalcul_echecs xs = map recalcul_echecs ys" "map chemin xs = map chemin ys"
proof -
  have a: "map f xs = map f ys" if "\<And>v. f v = f (sans_blocage v)" for f :: "voiture \<Rightarrow> 'a"
  proof -
    have "map f xs = map f (map sans_blocage xs)" using that by (simp add: o_def)
    also have "\<dots> = map f (map sans_blocage ys)" using assms by simp
    also have "\<dots> = map f ys" using that by (simp add: o_def)
    finally show ?thesis .
  qed
  show "map id_v xs = map id_v ys" by (rule a) (simp add: sans_blocage_def)
  show "map position xs = map position ys" by (rule a) (simp add: sans_blocage_def)
  show "map temps_arrivee xs = map temps_arrivee ys" by (rule a) (simp add: sans_blocage_def)
  show "map destination xs = map destination ys" by (rule a) (simp add: sans_blocage_def)
  show "map recalcul_echecs xs = map recalcul_echecs ys" by (rule a) (simp add: sans_blocage_def)
  show "map chemin xs = map chemin ys" by (rule a) (simp add: sans_blocage_def)
qed

text \<open>What one call of \<^verbatim>\<open>mettre_a_jour_voitures\<close> does, on a grid and with a shuffle
  that permutes: it returns, the cars it returns are those that phase 0 keeps, moved
  by the approved moves, and every approved move goes to a cell that no car on its way
  occupied and that \<^verbatim>\<open>est_deplacement_valide\<close> accepts.\<close>

lemma structure_du_tick:
  assumes v: "grille_valide g" and m: "\<forall>xs. mset (melange xs) = mset xs"
  shows "\<exists>appr vs2.
           mouvements_approuves melange t vs g feux dl dc pietons = Some (Inr (appr, vs2))
         \<and> mettre_a_jour_voitures melange t vs g feux dl dc tx ty pietons
             = Some (Inr (map (appliquer_mouvement t appr) vs2))
         \<and> map id_v vs2 = map id_v (voitures_restantes t vs)
         \<and> map position vs2 = map position (voitures_restantes t vs)
         \<and> map temps_arrivee vs2 = map temps_arrivee (voitures_restantes t vs)
         \<and> map destination vs2 = map destination (voitures_restantes t vs)
         \<and> list_all2 (\<lambda>v v'. recalcul_echecs v' = recalcul_echecs v \<or> recalcul_echecs v' = 0)
              (voitures_restantes t vs) vs2
         \<and> (\<forall>k p. appr k = Some p \<longrightarrow>
               p \<notin> position ` set (filter (\<lambda>v. temps_arrivee v = None) (voitures_restantes t vs))
               \<and> est_deplacement_valide p feux pietons g = Inr True)
         \<and> inj_on appr (dom appr)"
proof -
  let ?vs0 = "voitures_restantes t vs"
  from recalculer_chemins_ok [OF v, of t dl dc ?vs0] obtain vs1 where
    r: "recalculer_chemins t g dl dc ?vs0 = Some (Inr vs1)"
    and f1: "map id_v vs1 = map id_v ?vs0" "map position vs1 = map position ?vs0"
      "map temps_arrivee vs1 = map temps_arrivee ?vs0"
      "map destination vs1 = map destination ?vs0"
      "list_all2 (\<lambda>v v'. recalcul_echecs v' = recalcul_echecs v \<or> recalcul_echecs v' = 0)
         ?vs0 vs1"
    by blast
  let ?ordre = "voitures_a_resoudre_mouvement melange t vs1"
  let ?proj = "position ` set (filter (\<lambda>v. temps_arrivee v = None) vs1)"
  have "\<forall>i \<in> set ?ordre. chemin (vs1 ! i) \<noteq> []"
    using voitures_a_resoudre_eligibles [OF m] by (auto simp: eligible_def)
  from resoudre_mouvements_total [OF v this, of feux pietons ?proj Map.empty]
  obtain proj' appr vs2 where
    s: "resoudre_mouvements feux pietons g ?ordre (?proj, Map.empty, vs1)
          = Inr (proj', appr, vs2)"
    by (metis prod_cases3)
  from resoudre_mouvements_inv [OF s] have
    sb: "map sans_blocage vs2 = map sans_blocage vs1"
    and ap: "\<forall>k p. appr k = Some p \<longrightarrow>
         p \<notin> ?proj \<and> est_deplacement_valide p feux pietons g = Inr True"
    and inj: "inj_on appr (dom appr)"
    by simp_all
  note f2 = champs_sans_blocage [OF sb]
  have pe: "map position (filter (\<lambda>v. temps_arrivee v = None) vs1)
            = map position (filter (\<lambda>v. temps_arrivee v = None) ?vs0)"
    by (rule map_filter_meme [OF f1(2) f1(3), of "\<lambda>x. x = None"])
  have "?proj = set (map position (filter (\<lambda>v. temps_arrivee v = None) vs1))" by simp
  also have "\<dots> = position ` set (filter (\<lambda>v. temps_arrivee v = None) ?vs0)"
    unfolding pe by simp
  finally have pj: "?proj = position ` set (filter (\<lambda>v. temps_arrivee v = None) ?vs0)" .
  have ma: "mouvements_approuves melange t vs g feux dl dc pietons = Some (Inr (appr, vs2))"
    unfolding mouvements_approuves_def r by (simp only: s sum.case option.case prod.case)
  have mj: "mettre_a_jour_voitures melange t vs g feux dl dc tx ty pietons
             = Some (Inr (map (appliquer_mouvement t appr) vs2))"
    unfolding mettre_a_jour_voitures_def by (simp add: ma)
  have re: "list_all2 (\<lambda>v v'. recalcul_echecs v' = recalcul_echecs v \<or> recalcul_echecs v' = 0)
              ?vs0 vs2"
  proof -
    have l: "length vs2 = length vs1" using f2(1) by (metis length_map)
    have "recalcul_echecs (vs2 ! i) = recalcul_echecs (vs1 ! i)" if "i < length vs1" for i
      using f2(5) that l by (metis nth_map)
    then show ?thesis
      using f1(5) l by (auto simp: list_all2_conv_all_nth)
  qed
  show ?thesis
    using ma mj f1(1-4) f2(1-4) re ap inj unfolding pj by auto
qed

lemma appliquer_mouvement_champs:
  "id_v (appliquer_mouvement t appr v) = id_v v"
  "temps_arrivee (appliquer_mouvement t appr v) = temps_arrivee v"
  "destination (appliquer_mouvement t appr v) = destination v"
  "recalcul_echecs (appliquer_mouvement t appr v) = recalcul_echecs v"
  "position (appliquer_mouvement t appr v)
     = (case appr (id_v v) of None \<Rightarrow> position v | Some p \<Rightarrow> p)"
  by (simp_all add: appliquer_mouvement_def Let_def split: option.splits)

lemma filtre_apres_mouvement:
  "filter (\<lambda>v. temps_arrivee v = None) (map (appliquer_mouvement t appr) vs)
   = map (appliquer_mouvement t appr) (filter (\<lambda>v. temps_arrivee v = None) vs)"
  by (simp add: filter_map o_def appliquer_mouvement_champs)

lemmas evaluation_tick =
  mettre_a_jour_voitures_def mouvements_approuves_def voitures_restantes_def
  marquer_arrivee_def DELAI_DISPARITION_APRES_ARRIVEE_def besoin_chemin_def
  adopter_chemin_def SEUIL_BLOCAGE_def
  voitures_a_resoudre_mouvement_def eligible_def DELAI_MIN_MOUVEMENT_def
  est_deplacement_valide_def largeur_def cellule_def indice_def ROUTE_def
  appliquer_mouvement_def Let_def upt_rec

text \<open>
  Claim C2. The identifiers of the cars come from the counter \<^verbatim>\<open>prochain_id_voiture\<close>,
  which is incremented at every creation, so they are pairwise distinct in every car
  list of the program; the approved moves are stored under these identifiers. On a grid,
  when the identifiers are pairwise distinct and no two cars that have not arrived share
  a cell at the start of a call of \<^verbatim>\<open>mettre_a_jour_voitures\<close>, the call returns and no
  two cars that have not arrived share a cell after the moves are applied, in whatever
  order the shuffle puts the cars.
\<close>

theorem C2_exclusion_mutuelle:
  assumes v: "grille_valide g" and m: "\<forall>xs. mset (melange xs) = mset xs"
    and di: "distinct (map id_v voitures)"
    and dp: "distinct (map position (filter (\<lambda>v. temps_arrivee v = None) voitures))"
  shows "\<exists>vs'. mettre_a_jour_voitures melange t voitures g feux dl dc tx ty pietons
                 = Some (Inr vs')
            \<and> distinct (map position (filter (\<lambda>v. temps_arrivee v = None) vs'))"
proof -
  let ?vs0 = "voitures_restantes t voitures"
  let ?NA = "\<lambda>v. temps_arrivee v = None"
  from structure_du_tick [OF v m, of t voitures feux dl dc pietons tx ty]
  obtain appr vs2 where
    mj: "mettre_a_jour_voitures melange t voitures g feux dl dc tx ty pietons
             = Some (Inr (map (appliquer_mouvement t appr) vs2))"
    and fi: "map id_v vs2 = map id_v ?vs0"
    and fp: "map position vs2 = map position ?vs0"
    and ft: "map temps_arrivee vs2 = map temps_arrivee ?vs0"
    and ap: "\<forall>k p. appr k = Some p \<longrightarrow> p \<notin> position ` set (filter ?NA ?vs0)"
    and inj: "inj_on appr (dom appr)"
    by blast
  let ?ys = "filter ?NA vs2"
  have pe: "map position ?ys = map position (filter ?NA ?vs0)"
    by (rule map_filter_meme [OF fp ft, of "\<lambda>x. x = None"])
  have dpy: "distinct (map position ?ys)"
    unfolding pe by (rule voitures_restantes_exclusion [OF dp])
  have "distinct (map id_v vs2)"
    unfolding fi by (rule voitures_restantes_distinct_id [OF di])
  then have diy: "distinct (map id_v ?ys)" by (rule distinct_map_filter)
  have ps: "position ` set ?ys = position ` set (filter ?NA ?vs0)"
    using pe by (metis set_map)
  have dy: "distinct ?ys" and ii: "inj_on id_v (set ?ys)"
    using diy by (simp_all add: distinct_map)
  have ip: "inj_on position (set ?ys)"
    using dpy by (simp add: distinct_map)
  let ?np = "\<lambda>v. position (appliquer_mouvement t appr v)"
  have inp: "inj_on ?np (set ?ys)"
  proof (rule inj_onI)
    fix x y assume x: "x \<in> set ?ys" and y: "y \<in> set ?ys" and e: "?np x = ?np y"
    have px: "position x \<in> position ` set (filter ?NA ?vs0)"
      and py: "position y \<in> position ` set (filter ?NA ?vs0)"
      using x y ps by blast+
    show "x = y"
    proof (cases "appr (id_v x)")
      case None
      note nx = None
      show ?thesis
      proof (cases "appr (id_v y)")
        case None
        then have "position x = position y"
          using e nx by (simp add: appliquer_mouvement_champs)
        then show ?thesis using ip x y by (auto dest: inj_onD)
      next
        case (Some p)
        then have "position x = p" using e nx by (simp add: appliquer_mouvement_champs)
        then show ?thesis using ap Some px by blast
      qed
    next
      case (Some p)
      note sx = Some
      show ?thesis
      proof (cases "appr (id_v y)")
        case None
        then have "position y = p" using e sx by (simp add: appliquer_mouvement_champs)
        then show ?thesis using ap sx py by blast
      next
        case (Some q)
        then have "p = q" using e sx by (simp add: appliquer_mouvement_champs)
        then have "appr (id_v x) = appr (id_v y)" using sx Some by simp
        moreover have "id_v x \<in> dom appr" "id_v y \<in> dom appr" using sx Some by auto
        ultimately have "id_v x = id_v y" using inj by (auto dest: inj_onD)
        then show ?thesis using ii x y by (auto dest: inj_onD)
      qed
    qed
  qed
  have "distinct (map ?np ?ys)"
    using dy inp by (simp add: distinct_map)
  then have "distinct (map position
               (filter ?NA (map (appliquer_mouvement t appr) vs2)))"
    unfolding filtre_apres_mouvement by (simp add: o_def)
  then show ?thesis using mj by blast
qed

theorem C2_exclusion_mutuelle_witness:
  "grille_valide [''  '', ''  '']
   \<and> mettre_a_jour_voitures (\<lambda>xs. xs) 10
     [\<lparr>id_v = 1, position = (0, 0), destination = (1, 0), chemin = [(1, 0)],
        temps_arrivee = None, dernier_deplacement = 0, orientation = 0,
        bloquee_depuis = None, recalcul_echecs = 0\<rparr>,
      \<lparr>id_v = 2, position = (1, 0), destination = (1, 1), chemin = [(1, 1)],
        temps_arrivee = None, dernier_deplacement = 0, orientation = 0,
        bloquee_depuis = None, recalcul_echecs = 0\<rparr>,
      \<lparr>id_v = 3, position = (0, 1), destination = (1, 1), chemin = [(1, 1)],
        temps_arrivee = None, dernier_deplacement = 0, orientation = 0,
        bloquee_depuis = None, recalcul_echecs = 0\<rparr>]
     [''  '', ''  ''] [] [0 \<mapsto> ''droite'', 1 \<mapsto> ''droite''] [1 \<mapsto> ''bas''] 2 2 []
   = Some (Inr
     [\<lparr>id_v = 1, position = (0, 0), destination = (1, 0), chemin = [(1, 0)],
        temps_arrivee = None, dernier_deplacement = 0, orientation = 0,
        bloquee_depuis = None, recalcul_echecs = 0\<rparr>,
      \<lparr>id_v = 2, position = (1, 1), destination = (1, 1), chemin = [],
        temps_arrivee = None, dernier_deplacement = 10, orientation = 270,
        bloquee_depuis = None, recalcul_echecs = 0\<rparr>,
      \<lparr>id_v = 3, position = (0, 1), destination = (1, 1), chemin = [(1, 1)],
        temps_arrivee = None, dernier_deplacement = 0, orientation = 0,
        bloquee_depuis = None, recalcul_echecs = 0\<rparr>])
   \<and> distinct (map position (filter (\<lambda>v. temps_arrivee v = None)
     [\<lparr>id_v = 1, position = (0, 0), destination = (1, 0), chemin = [(1, 0)],
        temps_arrivee = None, dernier_deplacement = 0, orientation = 0,
        bloquee_depuis = None, recalcul_echecs = 0\<rparr>,
      \<lparr>id_v = 2, position = (1, 1), destination = (1, 1), chemin = [],
        temps_arrivee = None, dernier_deplacement = 10, orientation = 270,
        bloquee_depuis = None, recalcul_echecs = 0\<rparr>,
      \<lparr>id_v = 3, position = (0, 1), destination = (1, 1), chemin = [(1, 1)],
        temps_arrivee = None, dernier_deplacement = 0, orientation = 0,
        bloquee_depuis = None, recalcul_echecs = 0\<rparr>]))"
proof -
  let ?vs = "[\<lparr>id_v = 1, position = (0, 0), destination = (1, 0), chemin = [(1, 0)],
        temps_arrivee = None, dernier_deplacement = 0, orientation = 0,
        bloquee_depuis = None, recalcul_echecs = 0\<rparr>,
      \<lparr>id_v = 2, position = (1, 0), destination = (1, 1), chemin = [(1, 1)],
        temps_arrivee = None, dernier_deplacement = 0, orientation = 0,
        bloquee_depuis = None, recalcul_echecs = 0\<rparr>,
      \<lparr>id_v = 3, position = (0, 1), destination = (1, 1), chemin = [(1, 1)],
        temps_arrivee = None, dernier_deplacement = 0, orientation = 0,
        bloquee_depuis = None, recalcul_echecs = (0::int)\<rparr>]"
  have v: "grille_valide [''  '', ''  '']"
    unfolding grille_valide_def by simp
  have m: "\<forall>xs. mset ((\<lambda>xs::nat list. xs) xs) = mset xs" by simp
  have di: "distinct (map id_v ?vs)" by simp
  have dp: "distinct (map position (filter (\<lambda>v. temps_arrivee v = None) ?vs))" by simp
  have e: "mettre_a_jour_voitures (\<lambda>xs. xs) 10 ?vs
     [''  '', ''  ''] [] [0 \<mapsto> ''droite'', 1 \<mapsto> ''droite''] [1 \<mapsto> ''bas''] 2 2 []
   = Some (Inr
     [\<lparr>id_v = 1, position = (0, 0), destination = (1, 0), chemin = [(1, 0)],
        temps_arrivee = None, dernier_deplacement = 0, orientation = 0,
        bloquee_depuis = None, recalcul_echecs = 0\<rparr>,
      \<lparr>id_v = 2, position = (1, 1), destination = (1, 1), chemin = [],
        temps_arrivee = None, dernier_deplacement = 10, orientation = 270,
        bloquee_depuis = None, recalcul_echecs = 0\<rparr>,
      \<lparr>id_v = 3, position = (0, 1), destination = (1, 1), chemin = [(1, 1)],
        temps_arrivee = None, dernier_deplacement = 0, orientation = 0,
        bloquee_depuis = None, recalcul_echecs = 0\<rparr>])"
    by (simp add: evaluation_tick)
  from C2_exclusion_mutuelle [OF v m di dp, of 10 "[]"
      "[0 \<mapsto> ''droite'', 1 \<mapsto> ''droite'']" "[1 \<mapsto> ''bas'']" 2 2 "[]"]
  obtain vs' where
    r: "mettre_a_jour_voitures (\<lambda>xs. xs) 10 ?vs
          [''  '', ''  ''] [] [0 \<mapsto> ''droite'', 1 \<mapsto> ''droite''] [1 \<mapsto> ''bas''] 2 2 []
        = Some (Inr vs')"
    and d: "distinct (map position (filter (\<lambda>v. temps_arrivee v = None) vs'))"
    by blast
  from r d show ?thesis unfolding e using v e by blast
qed

text \<open>
  Claim C4. On a grid, a call of \<^verbatim>\<open>mettre_a_jour_voitures\<close> returns, and for every cell
  that hosts a light whose state is not green or a pedestrian of progress below 1, no
  move into that cell is approved and every car that is on that cell after the moves
  are applied was on it before.
\<close>

theorem C4_feux_et_pietons:
  assumes v: "grille_valide g" and m: "\<forall>xs. mset (melange xs) = mset xs"
  shows "\<exists>appr vs2 vs'.
           mouvements_approuves melange t voitures g feux dl dc pietons = Some (Inr (appr, vs2))
         \<and> mettre_a_jour_voitures melange t voitures g feux dl dc tx ty pietons = Some (Inr vs')
         \<and> length vs' = length (voitures_restantes t voitures)
         \<and> (\<forall>c. (\<exists>f \<in> set feux. position_feu f = c \<and> etat f \<noteq> ''vert'')
                  \<or> (\<exists>p \<in> set pietons. passage_pos p = c \<and> progres p < 1) \<longrightarrow>
                (\<forall>k. appr k \<noteq> Some c)
                \<and> (\<forall>i < length vs'. position (vs' ! i) = c \<longrightarrow>
                      position (voitures_restantes t voitures ! i) = c))"
proof -
  let ?vs0 = "voitures_restantes t voitures"
  from structure_du_tick [OF v m, of t voitures feux dl dc pietons tx ty]
  obtain appr vs2 where
    ma: "mouvements_approuves melange t voitures g feux dl dc pietons = Some (Inr (appr, vs2))"
    and mj: "mettre_a_jour_voitures melange t voitures g feux dl dc tx ty pietons
             = Some (Inr (map (appliquer_mouvement t appr) vs2))"
    and fp: "map position vs2 = map position ?vs0"
    and ap: "\<forall>k p. appr k = Some p \<longrightarrow> est_deplacement_valide p feux pietons g = Inr True"
    by blast
  have l: "length vs2 = length ?vs0" using fp by (metis length_map)
  have p0: "position (vs2 ! i) = position (?vs0 ! i)" if "i < length vs2" for i
    using fp that l by (metis nth_map)
  have a: "\<forall>k. appr k \<noteq> Some c"
    if "(\<exists>f \<in> set feux. position_feu f = c \<and> etat f \<noteq> ''vert'')
        \<or> (\<exists>p \<in> set pietons. passage_pos p = c \<and> progres p < 1)" for c
    using that ap est_deplacement_valide_vrai(2,3) [of c feux pietons g] by blast
  have b: "position (?vs0 ! i) = c"
    if g: "(\<exists>f \<in> set feux. position_feu f = c \<and> etat f \<noteq> ''vert'')
        \<or> (\<exists>p \<in> set pietons. passage_pos p = c \<and> progres p < 1)"
      and i: "i < length vs2" and pc: "position (map (appliquer_mouvement t appr) vs2 ! i) = c"
    for c i
  proof (cases "appr (id_v (vs2 ! i))")
    case None
    then show ?thesis using pc i p0 [OF i] by (simp add: appliquer_mouvement_champs)
  next
    case (Some p)
    then have "p = c" using pc i by (simp add: appliquer_mouvement_champs)
    then show ?thesis using a [OF g] Some by simp
  qed
  show ?thesis
    using ma mj l a b by (intro exI [of _ appr] exI [of _ vs2]
        exI [of _ "map (appliquer_mouvement t appr) vs2"]) auto
qed

theorem C4_feux_et_pietons_witness:
  "grille_valide [''   '', ''   '']
   \<and> mettre_a_jour_voitures (\<lambda>xs. xs) 10
     [\<lparr>id_v = 1, position = (0, 0), destination = (2, 0), chemin = [(1, 0), (2, 0)],
        temps_arrivee = None, dernier_deplacement = 0, orientation = 0,
        bloquee_depuis = None, recalcul_echecs = 0\<rparr>,
      \<lparr>id_v = 2, position = (0, 1), destination = (2, 1), chemin = [(1, 1), (2, 1)],
        temps_arrivee = None, dernier_deplacement = 0, orientation = 0,
        bloquee_depuis = None, recalcul_echecs = 0\<rparr>]
     [''   '', ''   '']
     [\<lparr>position_feu = (1, 0), etat = ''rouge'', duree_vert = 5, duree_orange = 2,
        duree_rouge = 5, duree_actuelle = 5, dernier_changement = 8\<rparr>]
     [0 \<mapsto> ''droite'', 1 \<mapsto> ''droite''] Map.empty 3 2
     [\<lparr>id_p = 0, passage_pos = (1, 1), orientation_p = ''vertical'', progres = 1 / 2\<rparr>]
   = Some (Inr
     [\<lparr>id_v = 1, position = (0, 0), destination = (2, 0), chemin = [(1, 0), (2, 0)],
        temps_arrivee = None, dernier_deplacement = 0, orientation = 0,
        bloquee_depuis = None, recalcul_echecs = 0\<rparr>,
      \<lparr>id_v = 2, position = (0, 1), destination = (2, 1), chemin = [(1, 1), (2, 1)],
        temps_arrivee = None, dernier_deplacement = 0, orientation = 0,
        bloquee_depuis = None, recalcul_echecs = 0\<rparr>])
   \<and> (\<exists>appr vs2. mouvements_approuves (\<lambda>xs. xs) 10
     [\<lparr>id_v = 1, position = (0, 0), destination = (2, 0), chemin = [(1, 0), (2, 0)],
        temps_arrivee = None, dernier_deplacement = 0, orientation = 0,
        bloquee_depuis = None, recalcul_echecs = 0\<rparr>,
      \<lparr>id_v = 2, position = (0, 1), destination = (2, 1), chemin = [(1, 1), (2, 1)],
        temps_arrivee = None, dernier_deplacement = 0, orientation = 0,
        bloquee_depuis = None, recalcul_echecs = 0\<rparr>]
     [''   '', ''   '']
     [\<lparr>position_feu = (1, 0), etat = ''rouge'', duree_vert = 5, duree_orange = 2,
        duree_rouge = 5, duree_actuelle = 5, dernier_changement = 8\<rparr>]
     [0 \<mapsto> ''droite'', 1 \<mapsto> ''droite''] Map.empty
     [\<lparr>id_p = 0, passage_pos = (1, 1), orientation_p = ''vertical'', progres = 1 / 2\<rparr>]
     = Some (Inr (appr, vs2))
     \<and> appr 1 \<noteq> Some (1, 0) \<and> appr 2 \<noteq> Some (1, 1))"
proof -
  let ?vs = "[\<lparr>id_v = 1, position = (0, 0), destination = (2, 0), chemin = [(1, 0), (2, 0)],
        temps_arrivee = None, dernier_deplacement = 0, orientation = 0,
        bloquee_depuis = None, recalcul_echecs = 0\<rparr>,
      \<lparr>id_v = 2, position = (0, 1), destination = (2, 1), chemin = [(1, 1), (2, 1)],
        temps_arrivee = None, dernier_deplacement = 0, orientation = 0,
        bloquee_depuis = None, recalcul_echecs = (0::int)\<rparr>]"
  let ?feux = "[\<lparr>position_feu = (1, 0), etat = ''rouge'', duree_vert = 5, duree_orange = 2,
        duree_rouge = 5, duree_actuelle = 5, dernier_changement = 8\<rparr>]"
  let ?pietons = "[\<lparr>id_p = 0, passage_pos = (1, 1), orientation_p = ''vertical'',
                    progres = 1 / 2\<rparr>]"
  have v: "grille_valide [''   '', ''   '']"
    unfolding grille_valide_def by simp
  have m: "\<forall>xs. mset ((\<lambda>xs::nat list. xs) xs) = mset xs" by simp
  have e: "mettre_a_jour_voitures (\<lambda>xs. xs) 10 ?vs [''   '', ''   ''] ?feux
     [0 \<mapsto> ''droite'', 1 \<mapsto> ''droite''] Map.empty 3 2 ?pietons
   = Some (Inr ?vs)"
    by (simp add: evaluation_tick)
  have f: "\<exists>f \<in> set ?feux. position_feu f = (1, 0) \<and> etat f \<noteq> ''vert''" by simp
  have p: "\<exists>p \<in> set ?pietons. passage_pos p = (1, 1) \<and> progres p < 1" by simp
  from C4_feux_et_pietons [OF v m, of 10 ?vs ?feux
      "[0 \<mapsto> ''droite'', 1 \<mapsto> ''droite'']" Map.empty ?pietons 3 2]
  obtain appr vs2 where
    a: "mouvements_approuves (\<lambda>xs. xs) 10 ?vs [''   '', ''   ''] ?feux
          [0 \<mapsto> ''droite'', 1 \<mapsto> ''droite''] Map.empty ?pietons = Some (Inr (appr, vs2))"
    and g: "\<forall>c. (\<exists>f \<in> set ?feux. position_feu f = c \<and> etat f \<noteq> ''vert'')
                  \<or> (\<exists>p \<in> set ?pietons. passage_pos p = c \<and> progres p < 1) \<longrightarrow>
                (\<forall>k. appr k \<noteq> Some c)"
    by blast
  have "appr 1 \<noteq> Some (1, 0)" using g f by blast
  moreover have "appr 2 \<noteq> Some (1, 1)" using g p by blast
  ultimately show ?thesis using v e a by blast
qed

text \<open>
  Claim C10. On a grid, \<^verbatim>\<open>est_deplacement_valide\<close> returns False for every target that
  is outside the grid or is not a ROUTE cell (an obstacle cell is not ROUTE); and in a
  call of \<^verbatim>\<open>mettre_a_jour_voitures\<close> every approved target is a ROUTE cell of the grid,
  so that every car whose position changes is then on a ROUTE cell, whatever its stored
  path says.
\<close>

theorem C10_cible_route:
  assumes v: "grille_valide g" and m: "\<forall>xs. mset (melange xs) = mset xs"
  shows "(\<forall>pos. \<not> est_route g pos \<longrightarrow> est_deplacement_valide pos feux pietons g = Inr False)
       \<and> (\<exists>appr vs2 vs'.
           mouvements_approuves melange t voitures g feux dl dc pietons = Some (Inr (appr, vs2))
         \<and> mettre_a_jour_voitures melange t voitures g feux dl dc tx ty pietons = Some (Inr vs')
         \<and> length vs' = length (voitures_restantes t voitures)
         \<and> (\<forall>k p. appr k = Some p \<longrightarrow> est_route g p)
         \<and> (\<forall>i < length vs'. position (vs' ! i) \<noteq> position (voitures_restantes t voitures ! i)
               \<longrightarrow> est_route g (position (vs' ! i))))"
proof -
  let ?vs0 = "voitures_restantes t voitures"
  have f: "est_deplacement_valide pos feux pietons g = Inr False" if "\<not> est_route g pos" for pos
  proof -
    from est_deplacement_valide_total [OF v, of pos feux pietons] obtain b where
      b: "est_deplacement_valide pos feux pietons g = Inr b" by blast
    with that est_deplacement_valide_vrai(1) [of pos feux pietons g] show ?thesis
      by (cases b) auto
  qed
  from structure_du_tick [OF v m, of t voitures feux dl dc pietons tx ty]
  obtain appr vs2 where
    ma: "mouvements_approuves melange t voitures g feux dl dc pietons = Some (Inr (appr, vs2))"
    and mj: "mettre_a_jour_voitures melange t voitures g feux dl dc tx ty pietons
             = Some (Inr (map (appliquer_mouvement t appr) vs2))"
    and fp: "map position vs2 = map position ?vs0"
    and ap: "\<forall>k p. appr k = Some p \<longrightarrow> est_deplacement_valide p feux pietons g = Inr True"
    by blast
  have l: "length vs2 = length ?vs0" using fp by (metis length_map)
  have p0: "position (vs2 ! i) = position (?vs0 ! i)" if "i < length vs2" for i
    using fp that l by (metis nth_map)
  have a: "\<forall>k p. appr k = Some p \<longrightarrow> est_route g p"
    using ap est_deplacement_valide_vrai(1) by blast
  have b: "est_route g (position (map (appliquer_mouvement t appr) vs2 ! i))"
    if i: "i < length vs2"
      and pc: "position (map (appliquer_mouvement t appr) vs2 ! i) \<noteq> position (?vs0 ! i)"
    for i
  proof (cases "appr (id_v (vs2 ! i))")
    case None
    then show ?thesis using pc i p0 [OF i] by (simp add: appliquer_mouvement_champs)
  next
    case (Some p)
    have r: "est_route g p" using a Some by blast
    have "position (appliquer_mouvement t appr (vs2 ! i)) = p"
      using Some by (simp add: appliquer_mouvement_champs)
    then show ?thesis using r i by simp
  qed
  have "\<exists>appr vs2 vs'.
           mouvements_approuves melange t voitures g feux dl dc pietons = Some (Inr (appr, vs2))
         \<and> mettre_a_jour_voitures melange t voitures g feux dl dc tx ty pietons = Some (Inr vs')
         \<and> length vs' = length (voitures_restantes t voitures)
         \<and> (\<forall>k p. appr k = Some p \<longrightarrow> est_route g p)
         \<and> (\<forall>i < length vs'. position (vs' ! i) \<noteq> position (voitures_restantes t voitures ! i)
               \<longrightarrow> est_route g (position (vs' ! i)))"
    using ma mj l a b by (intro exI [of _ appr] exI [of _ vs2]
        exI [of _ "map (appliquer_mouvement t appr) vs2"]) auto
  then show ?thesis using f by blast
qed

theorem C10_cible_route_witness:
  "grille_valide [''  X '']
   \<and> est_deplacement_valide (2, 0) [] [] [''  X ''] = Inr False
   \<and> mettre_a_jour_voitures (\<lambda>xs. xs) 10
     [\<lparr>id_v = 1, position = (1, 0), destination = (3, 0), chemin = [(2, 0), (3, 0)],
        temps_arrivee = None, dernier_deplacement = 0, orientation = 0,
        bloquee_depuis = None, recalcul_echecs = 0\<rparr>]
     [''  X ''] [] [0 \<mapsto> ''droite''] Map.empty 4 1 []
   = Some (Inr
     [\<lparr>id_v = 1, position = (1, 0), destination = (3, 0), chemin = [(2, 0), (3, 0)],
        temps_arrivee = None, dernier_deplacement = 0, orientation = 0,
        bloquee_depuis = None, recalcul_echecs = 0\<rparr>])"
proof -
  have v: "grille_valide [''  X '']"
    unfolding grille_valide_def by simp
  have m: "\<forall>xs. mset ((\<lambda>xs::nat list. xs) xs) = mset xs" by simp
  have n: "\<not> est_route [''  X ''] (2, 0)"
    by (simp add: est_route_def dans_grille_def cellule_def indice_def ROUTE_def)
  have e: "mettre_a_jour_voitures (\<lambda>xs. xs) 10
     [\<lparr>id_v = 1, position = (1, 0), destination = (3, 0), chemin = [(2, 0), (3, 0)],
        temps_arrivee = None, dernier_deplacement = 0, orientation = 0,
        bloquee_depuis = None, recalcul_echecs = 0\<rparr>]
     [''  X ''] [] [0 \<mapsto> ''droite''] Map.empty 4 1 []
   = Some (Inr
     [\<lparr>id_v = 1, position = (1, 0), destination = (3, 0), chemin = [(2, 0), (3, 0)],
        temps_arrivee = None, dernier_deplacement = 0, orientation = 0,
        bloquee_depuis = None, recalcul_echecs = 0\<rparr>])"
    by (simp add: evaluation_tick)
  from C10_cible_route [OF v m, of "[]" "[]"] n
  have "est_deplacement_valide (2, 0) [] [] [''  X ''] = Inr False" by blast
  with v e show ?thesis by blast
qed

section \<open>Replan failures\<close>

text \<open>No call of \<^verbatim>\<open>mettre_a_jour_voitures\<close> changes a destination or raises a failure
  count: the count of a car is what it was or 0.\<close>

lemma tick_sans_escalade:
  assumes v: "grille_valide g" and m: "\<forall>xs. mset (melange xs) = mset xs"
  shows "\<exists>vs'. mettre_a_jour_voitures melange t vs g feux dl dc tx ty pietons = Some (Inr vs')
           \<and> map destination vs' = map destination (voitures_restantes t vs)
           \<and> list_all2 (\<lambda>v v'. recalcul_echecs v' = recalcul_echecs v \<or> recalcul_echecs v' = 0)
                (voitures_restantes t vs) vs'"
proof -
  from structure_du_tick [OF v m, of t vs feux dl dc pietons tx ty]
  obtain appr vs2 where
    mj: "mettre_a_jour_voitures melange t vs g feux dl dc tx ty pietons
             = Some (Inr (map (appliquer_mouvement t appr) vs2))"
    and fd: "map destination vs2 = map destination (voitures_restantes t vs)"
    and fr: "list_all2 (\<lambda>v v'. recalcul_echecs v' = recalcul_echecs v \<or> recalcul_echecs v' = 0)
              (voitures_restantes t vs) vs2"
    by blast
  have "map destination (map (appliquer_mouvement t appr) vs2) = map destination vs2"
    by (simp add: appliquer_mouvement_champs)
  moreover have "list_all2 (\<lambda>v v'. recalcul_echecs v' = recalcul_echecs v \<or> recalcul_echecs v' = 0)
              (voitures_restantes t vs) (map (appliquer_mouvement t appr) vs2)"
    using fr by (simp add: list_all2_map2 appliquer_mouvement_champs)
  ultimately show ?thesis using mj fd by simp
qed

lemma planificateur_bloque:
  "trouver_chemin [''  X ''] (0, 0) (3, 0) [0 \<mapsto> ''droite''] Map.empty = Some (Inr None)"
  by code_simp

lemma planificateur_autre_destination:
  "trouver_chemin [''  X ''] (0, 0) (1, 0) [0 \<mapsto> ''droite''] Map.empty
   = Some (Inr (Some [(0, 0), (1, 0)]))"
  by code_simp

text \<open>
  Claim C1 against the code. A car at \<open>(0, 0)\<close> whose destination \<open>(3, 0)\<close> lies behind
  the obstacle at \<open>(2, 0)\<close> fails its replan in each of eight successive calls. Its
  failure count \<^verbatim>\<open>recalcul_echecs\<close> is still 0 after the eighth, above the threshold
  \<^verbatim>\<open>MAX_RECALCUL_ECHECS\<close> of 6, and its destination is still \<open>(3, 0)\<close>, although the
  ROUTE cell \<open>(1, 0)\<close> is another destination that the planner reaches.
\<close>

theorem C1_echecs_non_comptes:
  "ticks_successifs (\<lambda>xs. xs) [10, 12, 14, 16, 18, 20, 22, 24]
     [\<lparr>id_v = 1, position = (0, 0), destination = (3, 0), chemin = [],
        temps_arrivee = None, dernier_deplacement = 0, orientation = 0,
        bloquee_depuis = None, recalcul_echecs = 0\<rparr>]
     [''  X ''] [] [0 \<mapsto> ''droite''] Map.empty 4 1 []
   = Some (Inr
     [\<lparr>id_v = 1, position = (0, 0), destination = (3, 0), chemin = [],
        temps_arrivee = None, dernier_deplacement = 0, orientation = 0,
        bloquee_depuis = Some 10, recalcul_echecs = 0\<rparr>])
   \<and> trouver_chemin [''  X ''] (0, 0) (1, 0) [0 \<mapsto> ''droite''] Map.empty
     = Some (Inr (Some [(0, 0), (1, 0)]))"
  by (simp add: evaluation_tick planificateur_bloque planificateur_autre_destination)

section \<open>The stored paths between two events\<close>

lemma chemins_praticables_list_all:
  "chemins_praticables g vs \<longleftrightarrow> list_all (chemin_praticable g) vs"
  by (simp add: chemins_praticables_def chemin_praticable_def list_all_iff)

lemma adopter_chemin_praticable:
  assumes "resultat_correct g dl dc (position v) (destination v) r"
  shows "chemin_praticable g (adopter_chemin t v r)"
proof (cases r)
  case None
  then show ?thesis by (simp add: adopter_chemin_def chemin_praticable_def)
next
  case (Some p)
  with assms have r: "list_all (est_route g) p" and l: "last p = destination v"
    by (simp_all add: resultat_correct_def itineraire_def)
  show ?thesis
  proof (cases "length p > 1")
    case True
    then have ne: "drop 1 p \<noteq> []" by simp
    have "list_all (est_route g) (drop 1 p)"
      using r by (metis append_take_drop_id list_all_append)
    moreover have "last (drop 1 p) = destination v"
      using ne l by (simp add: last_drop)
    ultimately show ?thesis
      using Some True by (simp add: adopter_chemin_def chemin_praticable_def)
  next
    case False
    then show ?thesis using Some by (simp add: adopter_chemin_def chemin_praticable_def)
  qed
qed

lemma recalculer_chemins_praticables:
  assumes v: "grille_valide g"
  shows "list_all (chemin_praticable g) vs \<Longrightarrow>
         recalculer_chemins t g dl dc vs = Some (Inr vs') \<Longrightarrow>
         list_all (chemin_praticable g) vs'"
proof (induction vs arbitrary: vs')
  case Nil
  then show ?case by simp
next
  case (Cons a vs)
  from recalculer_chemins_ok [OF v, of t dl dc vs] obtain ws where
    w: "recalculer_chemins t g dl dc vs = Some (Inr ws)" by blast
  have pw: "list_all (chemin_praticable g) ws"
    using Cons.IH [OF _ w] Cons.prems(1) by simp
  from trouver_chemin_correct [OF v, of "position a" "destination a" dl dc] obtain p where
    p: "trouver_chemin g (position a) (destination a) dl dc = Some (Inr p)"
    and c: "resultat_correct g dl dc (position a) (destination a) p" by blast
  show ?case
  proof (cases "besoin_chemin t a")
    case True
    then have "recalculer_chemins t g dl dc (a # vs) = Some (Inr (adopter_chemin t a p # ws))"
      by (simp add: p w)
    with Cons.prems(2) have "vs' = adopter_chemin t a p # ws" by simp
    then show ?thesis using pw adopter_chemin_praticable [OF c] by simp
  next
    case False
    then have "recalculer_chemins t g dl dc (a # vs) = Some (Inr (a # ws))"
      by (simp add: w)
    with Cons.prems(2) have "vs' = a # ws" by simp
    then show ?thesis using pw Cons.prems(1) by simp
  qed
qed

lemma voitures_restantes_praticables:
  assumes "list_all (chemin_praticable g) vs"
  shows "list_all (chemin_praticable g) (voitures_restantes t vs)"
proof -
  have "chemin_praticable g (marquer_arrivee t v)" if "chemin_praticable g v" for v
    using that by (simp add: marquer_arrivee_def chemin_praticable_def)
  then show ?thesis
    using assms by (auto simp: voitures_restantes_def list_all_iff)
qed

lemma sans_blocage_praticable:
  "chemin_praticable g (sans_blocage v) = chemin_praticable g v"
  by (simp add: chemin_praticable_def sans_blocage_def)

lemma sans_blocage_praticables:
  assumes "map sans_blocage xs = map sans_blocage ys"
    and "list_all (chemin_praticable g) ys"
  shows "list_all (chemin_praticable g) xs"
proof -
  have "list_all (chemin_praticable g) (map sans_blocage ys)"
    using assms(2) by (simp add: list_all_iff sans_blocage_praticable)
  then have "list_all (chemin_praticable g) (map sans_blocage xs)"
    using assms(1) by simp
  then show ?thesis by (simp add: list_all_iff sans_blocage_praticable)
qed

lemma appliquer_mouvement_praticable:
  assumes "chemin_praticable g v"
  shows "chemin_praticable g (appliquer_mouvement t appr v)"
proof (cases "appr (id_v v)")
  case None
  then show ?thesis using assms by (simp add: appliquer_mouvement_def)
next
  case (Some p)
  have c: "chemin (appliquer_mouvement t appr v) = chemin v
         \<or> chemin (appliquer_mouvement t appr v) = tl (chemin v)"
    using Some by (simp add: appliquer_mouvement_def Let_def)
  have f: "temps_arrivee (appliquer_mouvement t appr v) = temps_arrivee v"
    "destination (appliquer_mouvement t appr v) = destination v"
    by (simp_all add: appliquer_mouvement_champs)
  have "list_all (est_route g) (tl xs)" if "list_all (est_route g) xs" for xs
    using that by (cases xs) simp_all
  moreover have "last (tl xs) = last xs" if "tl xs \<noteq> []" for xs :: "case_t list"
    using that by (cases xs) auto
  ultimately show ?thesis
    using assms c f unfolding chemin_praticable_def by (metis list.sel(2))
qed

lemma tick_praticables:
  assumes v: "grille_valide g" and h: "chemins_praticables g voitures"
    and r: "mettre_a_jour_voitures melange t voitures g feux dl dc tx ty pietons
            = Some (Inr voitures')"
  shows "chemins_praticables g voitures'"
proof -
  let ?vs0 = "voitures_restantes t voitures"
  from recalculer_chemins_ok [OF v, of t dl dc ?vs0] obtain vs1 where
    r1: "recalculer_chemins t g dl dc ?vs0 = Some (Inr vs1)" by blast
  have p0: "list_all (chemin_praticable g) ?vs0"
    using h by (simp add: chemins_praticables_list_all voitures_restantes_praticables)
  have p1: "list_all (chemin_praticable g) vs1"
    by (rule recalculer_chemins_praticables [OF v p0 r1])
  from r obtain proj appr vs2 where
    r2: "resoudre_mouvements feux pietons g (voitures_a_resoudre_mouvement melange t vs1)
           (position ` set (filter (\<lambda>v. temps_arrivee v = None) vs1), Map.empty, vs1)
         = Inr (proj, appr, vs2)"
    and e: "voitures' = map (appliquer_mouvement t appr) vs2"
    unfolding mettre_a_jour_voitures_def mouvements_approuves_def r1
    by (auto split: sum.splits prod.splits)
  from resoudre_mouvements_inv [OF r2] have "map sans_blocage vs2 = map sans_blocage vs1"
    by blast
  then have p2: "list_all (chemin_praticable g) vs2"
    using p1 by (rule sans_blocage_praticables)
  show ?thesis
    unfolding e chemins_praticables_list_all
    using p2 by (simp add: list_all_iff appliquer_mouvement_praticable)
qed

lemma ecrire_forme:
  assumes "ecrire g x y s = Inr g'"
  shows "\<exists>j i. indice (length g) y = Inr j \<and> indice (length (g ! j)) x = Inr i
           \<and> j < length g \<and> i < length (g ! j) \<and> g' = g[j := (g ! j)[i := s]]"
  using assms by (auto simp: ecrire_def split: sum.splits dest: indice_Inr)

lemma dans_grille_ecrire:
  assumes "ecrire g x y s = Inr g'"
  shows "dans_grille g' a b = dans_grille g a b"
proof -
  from ecrire_forme [OF assms] obtain j i where
    g': "g' = g[j := (g ! j)[i := s]]" and j: "j < length g" by blast
  have "length (g' ! n) = length (g ! n)" for n
    unfolding g' using j by (cases "n = j") simp_all
  moreover have "length g' = length g" by (simp add: g')
  ultimately show ?thesis by (simp add: dans_grille_def)
qed

lemma est_route_ecrire_route:
  assumes e: "ecrire g x y ROUTE = Inr g'" and r: "est_route g c"
  shows "est_route g' c"
proof -
  from ecrire_forme [OF e] obtain j i where
    g': "g' = g[j := (g ! j)[i := ROUTE]]" and j: "j < length g" and i: "i < length (g ! j)"
    by blast
  from r have d: "dans_grille g (fst c) (snd c)" and v: "g ! nat (snd c) ! nat (fst c) = ROUTE"
    by (simp_all add: est_route_def)
  have "g' ! nat (snd c) ! nat (fst c) = ROUTE"
  proof (cases "nat (snd c) = j")
    case True
    then show ?thesis
      unfolding g' using j i v by (cases "nat (fst c) = i") simp_all
  next
    case False
    then show ?thesis unfolding g' using v by simp
  qed
  then show ?thesis
    using d by (simp add: est_route_def dans_grille_ecrire [OF e])
qed

lemma est_route_ecrire_autre:
  assumes e: "ecrire g x y s = Inr g'" and r: "est_route g c" and n: "c \<noteq> (x, y)"
    and x: "0 \<le> x" and y: "0 \<le> y"
  shows "est_route g' c"
proof -
  from ecrire_forme [OF e] obtain j i where
    ij: "indice (length g) y = Inr j" "indice (length (g ! j)) x = Inr i"
    and g': "g' = g[j := (g ! j)[i := s]]" and j: "j < length g" and i: "i < length (g ! j)"
    by blast
  have jy: "j = nat y" using ij(1) y by (auto simp: indice_def Let_def split: if_splits)
  have ix: "i = nat x" using ij(2) x by (auto simp: indice_def Let_def split: if_splits)
  from r have d: "dans_grille g (fst c) (snd c)" and v: "g ! nat (snd c) ! nat (fst c) = ROUTE"
    by (simp_all add: est_route_def)
  have c0: "0 \<le> fst c" "0 \<le> snd c" using d by (simp_all add: dans_grille_def)
  have "g' ! nat (snd c) ! nat (fst c) = ROUTE"
  proof (cases "nat (snd c) = j")
    case True
    then have "snd c = y" using jy y c0 by simp
    then have "fst c \<noteq> x" using n by (cases c) auto
    then have "nat (fst c) \<noteq> i" using ix x c0 by simp
    then show ?thesis unfolding g' using j v True by simp
  next
    case False
    then show ?thesis unfolding g' using v by simp
  qed
  then show ?thesis
    using d by (simp add: est_route_def dans_grille_ecrire [OF e])
qed

text \<open>A removal keeps the stored paths practicable.\<close>

lemma retrait_praticables:
  assumes "clic_droit cx cy (g, voitures) = Inr (g', voitures')
           \<or> obstacle_automatique ''remove'' k feux (g, voitures) = Inr (g', voitures')"
    and h: "chemins_praticables g voitures"
  shows "chemins_praticables g' voitures'"
proof (cases "g' = g")
  case True
  have "voitures' = voitures"
    using assms(1)
    by (auto simp: clic_droit_def obstacle_automatique_def Let_def
        split: if_splits sum.splits prod.splits)
  then show ?thesis using h True by simp
next
  case False
  have "\<exists>x y. ecrire g x y ROUTE = Inr g'" and v: "voitures' = voitures"
    using assms(1) False
    by (auto simp: clic_droit_def obstacle_automatique_def Let_def
        split: if_splits sum.splits prod.splits)
  then obtain x y where e: "ecrire g x y ROUTE = Inr g'" by blast
  have "list_all (est_route g') p" if "list_all (est_route g) p" for p
    using that est_route_ecrire_route [OF e] by (simp add: list_all_iff)
  then show ?thesis
    using h unfolding v chemins_praticables_def by blast
qed

lemma forcer_recalcul_praticable:
  assumes e: "ecrire g x y s = Inr g'" and x: "0 \<le> x" and y: "0 \<le> y"
    and p: "chemin_praticable g v"
    and q: "temps_arrivee v = None \<longrightarrow> position v \<notin> set (chemin v)"
  shows "chemin_praticable g' (forcer_recalcul_voiture (x, y) v)"
proof (cases "temps_arrivee v = None \<and> position v \<noteq> (x, y)
              \<and> ((x, y) \<in> set (chemin v) \<or> destination v = (x, y))")
  case True
  then show ?thesis by (simp add: forcer_recalcul_voiture_def chemin_praticable_def)
next
  case False
  then have f: "forcer_recalcul_voiture (x, y) v = v"
    by (auto simp: forcer_recalcul_voiture_def)
  show ?thesis
  proof (cases "temps_arrivee v = None")
    case True
    have "(x, y) \<notin> set (chemin v)" using False True q by auto
    then have "\<forall>c \<in> set (chemin v). est_route g' c"
      using p True est_route_ecrire_autre [OF e _ _ x y]
      by (metis chemin_praticable_def list_all_iff)
    then show ?thesis
      using p True unfolding f chemin_praticable_def by (simp add: list_all_iff)
  next
    case False
    then show ?thesis unfolding f chemin_praticable_def by blast
  qed
qed

lemma toutes_positions_positives:
  "p \<in> set toutes_positions \<Longrightarrow> 0 \<le> fst p \<and> 0 \<le> snd p"
  by (auto simp: toutes_positions_def)

text \<open>A placement keeps the stored paths practicable, when no car that has not arrived
  has its own cell in its stored path.\<close>

lemma placement_praticables:
  assumes ev: "clic_gauche feux cx cy (g, voitures) = Inr (g', voitures')
           \<or> obstacle_automatique ''add'' k feux (g, voitures) = Inr (g', voitures')"
    and h: "chemins_praticables g voitures"
    and q: "\<forall>v \<in> set voitures. temps_arrivee v = None \<longrightarrow> position v \<notin> set (chemin v)"
  shows "chemins_praticables g' voitures'"
proof (cases "g' = g")
  case True
  have "voitures' = voitures \<or> (\<exists>x y. 
          (ajouter_obstacle_manuel g x y feux = Inr (True, g')
           \<or> ajouter_obstacle_auto g x y feux = Inr (True, g')))"
    using ev
    by (auto simp: clic_gauche_def obstacle_automatique_def Let_def
        split: if_splits sum.splits prod.splits)
  moreover have False if "ajouter_obstacle_manuel g x y feux = Inr (True, g')
           \<or> ajouter_obstacle_auto g x y feux = Inr (True, g')" for x y
    using that True ajouter_obstacle_manuel_succes [of g x y feux g']
      ajouter_obstacle_auto_succes [of g x y feux g']
    by (auto simp: ROUTE_def OBSTACLE_MANUEL_def OBSTACLE_AUTO_SYM_def)
  ultimately show ?thesis using h True by auto
next
  case False
  have "\<exists>x y s. 0 \<le> x \<and> 0 \<le> y \<and> ecrire g x y s = Inr g'
          \<and> voitures' = forcer_recalcul_si_affecte x y voitures"
    using ev
  proof
    assume a: "clic_gauche feux cx cy (g, voitures) = Inr (g', voitures')"
    then have b: "0 \<le> cx \<and> 0 \<le> cy" using False
      by (auto simp: clic_gauche_def split: if_splits)
    from a False b have "ecrire g cx cy OBSTACLE_MANUEL = Inr g'
        \<and> voitures' = forcer_recalcul_si_affecte cx cy voitures"
      by (auto simp: clic_gauche_def ajouter_obstacle_manuel_def Let_def
          split: if_splits sum.splits)
    with b show ?thesis by blast
  next
    assume a: "obstacle_automatique ''add'' k feux (g, voitures) = Inr (g', voitures')"
    let ?ps = "possible_add_positions g feux"
    from a False have ne: "?ps \<noteq> []" and c: "couvre g"
      by (auto simp: obstacle_automatique_def Let_def split: if_splits)
    obtain ox oy where p: "?ps ! (k mod length ?ps) = (ox, oy)"
      by (cases "?ps ! (k mod length ?ps)")
    have "(ox, oy) \<in> set ?ps"
      using ne p by (metis length_greater_0_conv mod_less_divisor nth_mem)
    then have "(ox, oy) \<in> set toutes_positions"
      by (auto simp: possible_add_positions_def Let_def)
    then have b: "0 \<le> ox \<and> 0 \<le> oy" using toutes_positions_positives by fastforce
    from a False c ne p have "ecrire g ox oy OBSTACLE_AUTO_SYM = Inr g'
        \<and> voitures' = forcer_recalcul_si_affecte ox oy voitures"
      by (auto simp: obstacle_automatique_def ajouter_obstacle_auto_def Let_def
          split: if_splits sum.splits)
    with b show ?thesis by blast
  qed
  then obtain x y s where x: "0 \<le> x" and y: "0 \<le> y" and e: "ecrire g x y s = Inr g'"
    and v: "voitures' = forcer_recalcul_si_affecte x y voitures" by blast
  have "chemin_praticable g' (forcer_recalcul_voiture (x, y) w)" if "w \<in> set voitures" for w
    using forcer_recalcul_praticable [OF e x y] h q that
    by (simp add: chemins_praticables_list_all list_all_iff)
  then show ?thesis
    unfolding v chemins_praticables_list_all forcer_recalcul_si_affecte_def
    by (simp add: list_all_iff)
qed

end
